theory Spec2Isabelle
  imports Complex_Main
begin

section \<open>The tank game: trajectory engine and turn controller\<close>

text \<open>
  A shallow embedding of \<^verbatim>\<open>tanks.py\<close>. Python and numpy floats are idealised as
  real numbers: overflow and infinities are not represented, and neither is rounding,
  but for the shot in rounded arithmetic, which has a subsection of its own. The one
  place where numpy leaves the reals on inputs the program accepts, the square
  root of a negative number (numpy returns nan with a warning, it raises
  nothing), is a value of its own in the model (\<open>NanPoints\<close>).
  The plotting calls (\<^verbatim>\<open>plt.plot\<close>, \<^verbatim>\<open>drawBoard\<close>, \<^verbatim>\<open>showWindow\<close>) do not
  take part in any result and are left out.
\<close>

subsection \<open>Data\<close>

text \<open>A box is the tuple \<^verbatim>\<open>(left, right, bottom, top)\<close>, read by \<^verbatim>\<open>box[0]\<close> .. \<^verbatim>\<open>box[3]\<close>.\<close>

type_synonym box = "real \<times> real \<times> real \<times> real"

text \<open>The exceptions that the modelled code can raise.\<close>

datatype error = ZeroDivisionError | ValueError | IndexError | EOFError

text \<open>
  The pair of arrays \<^verbatim>\<open>(x, y)\<close> that \<^verbatim>\<open>trajectory\<close> returns: either two arrays of
  numbers, or (negative radicand) two arrays of the given length that hold only nan.
\<close>

datatype samples = Points "real list" "real list" | NanPoints nat

subsection \<open>firstInBox\<close>

text \<open>
  \<^verbatim>\<open>for i in range(0,len(x)): if (box[0] <= x[i] <= box[1] and box[2] <= y[i] <= box[3]): return i\<close>
  and \<^verbatim>\<open>return -1\<close> after the loop. The loop is the recursion on the index \<open>i\<close>.
  \<^verbatim>\<open>and\<close> evaluates its right operand only when the left one holds, so \<^verbatim>\<open>y[i]\<close> is
  read, and raises IndexError on an array \<open>y\<close> that is too short, only for an \<open>x[i]\<close> in range.
\<close>

function firstInBox_loop :: "real list \<Rightarrow> real list \<Rightarrow> box \<Rightarrow> nat \<Rightarrow> error + int" where
  "firstInBox_loop x y (b0, b1, b2, b3) i =
     (if i < length x then
        (if b0 \<le> x ! i \<and> x ! i \<le> b1 then
           (if i < length y then
              (if b2 \<le> y ! i \<and> y ! i \<le> b3 then Inr (int i)
               else firstInBox_loop x y (b0, b1, b2, b3) (Suc i))
            else Inl IndexError)
         else firstInBox_loop x y (b0, b1, b2, b3) (Suc i))
      else Inr (- 1))"
  by pat_completeness auto
termination
  by (relation "measure (\<lambda>(x, y, b, i). length x - i)") auto

declare firstInBox_loop.simps [simp del]

definition firstInBox :: "real list \<Rightarrow> real list \<Rightarrow> box \<Rightarrow> error + int" where
  "firstInBox x y box = firstInBox_loop x y box 0"

subsection \<open>endTrajectoryAtIntersection\<close>

text \<open>
  \<^verbatim>\<open>i = firstInBox(x,y,box); if (i < 0): return (x,y); return (x[0:i],y[0:i])\<close>.
  The slice \<^verbatim>\<open>a[0:i]\<close> with \<open>0 \<le> i\<close> is the first \<open>i\<close> elements, all of them when
  the array is shorter.
\<close>

definition endTrajectoryAtIntersection ::
  "real list \<Rightarrow> real list \<Rightarrow> box \<Rightarrow> error + (real list \<times> real list)" where
  "endTrajectoryAtIntersection x y box =
     (case firstInBox x y box of
        Inl e \<Rightarrow> Inl e
      | Inr i \<Rightarrow> if i < 0 then Inr (x, y) else Inr (take (nat i) x, take (nat i) y))"

subsection \<open>trajectory\<close>

text \<open>
  Modelled from the spec: numpy is not part of the source. \<^verbatim>\<open>np.linspace(start, stop, num)\<close>
  gives \<open>num\<close> points "uniformly spaced in [0, tFinal] inclusive of both endpoints": sample
  \<open>i\<close> is \<open>start + i * (stop - start) / (num - 1)\<close>; one sample is \<open>start\<close> alone, and a
  negative \<open>num\<close> raises ValueError. \<^verbatim>\<open>np.sin\<close>, \<^verbatim>\<open>np.cos\<close> and \<^verbatim>\<open>np.sqrt\<close> are the real
  functions, and \<^verbatim>\<open>np.deg2rad\<close> multiplies by \<open>pi / 180\<close>.
\<close>

definition linspace :: "real \<Rightarrow> real \<Rightarrow> int \<Rightarrow> error + real list" where
  "linspace start stop num =
     (if num < 0 then Inl ValueError
      else if num = 1 then Inr [start]
      else Inr (map (\<lambda>i. start + real i * ((stop - start) / real (nat num - 1))) [0..<nat num]))"

definition deg2rad :: "real \<Rightarrow> real" where
  "deg2rad theta = theta * pi / 180"

text \<open>
  \<^verbatim>\<open>vy = v * np.sin(np.deg2rad(theta)); vx = v * np.cos(np.deg2rad(theta))\<close>,
  \<^verbatim>\<open>tfinal = vy/g + np.sqrt((vy/g)**2 + 2*y0/g)\<close>, \<^verbatim>\<open>t = np.linspace(0,tfinal,npts)\<close>,
  \<^verbatim>\<open>x = x0 + vx * t\<close>, \<^verbatim>\<open>y = y0 + vy * t - 0.5 * g * t**2\<close>.
  The arguments are Python floats, as \<^verbatim>\<open>oneTurn\<close> passes them, and \<open>vy\<close> is a numpy
  float: with \<open>g = 0\<close> the numpy division \<^verbatim>\<open>vy/g\<close> only warns, and the Python division
  \<^verbatim>\<open>2*y0/g\<close> raises ZeroDivisionError. A negative radicand makes \<open>tfinal\<close>, and with it
  every sample, nan.
\<close>

definition tfinal :: "real \<Rightarrow> real \<Rightarrow> real \<Rightarrow> real" where
  "tfinal vy g y0 = vy / g + sqrt ((vy / g)\<^sup>2 + 2 * y0 / g)"

definition trajectory :: "real \<Rightarrow> real \<Rightarrow> real \<Rightarrow> real \<Rightarrow> real \<Rightarrow> int \<Rightarrow> error + samples" where
  "trajectory x0 y0 v theta g npts =
     (let vy = v * sin (deg2rad theta);
          vx = v * cos (deg2rad theta)
      in if g = 0 then Inl ZeroDivisionError
         else if (vy / g)\<^sup>2 + 2 * y0 / g < 0 then
           (if npts < 0 then Inl ValueError else Inr (NanPoints (nat npts)))
         else
           (case linspace 0 (tfinal vy g y0) npts of
              Inl e \<Rightarrow> Inl e
            | Inr t \<Rightarrow>
                Inr (Points (map (\<lambda>ti. x0 + vx * ti) t)
                            (map (\<lambda>ti. y0 + vy * ti - 0.5 * g * ti\<^sup>2) t))))"

subsection \<open>tankShot\<close>

text \<open>
  \<^verbatim>\<open>x,y = trajectory(x0,y0,v,theta,g, npts=10000)\<close>,
  \<^verbatim>\<open>x,y = endTrajectoryAtIntersection(x,y,obstacleBox)\<close>,
  \<^verbatim>\<open>return(firstInBox(x,y,targetBox) >=0)\<close>.
  On arrays of nan every comparison of \<^verbatim>\<open>firstInBox\<close> is false: both scans return -1
  and the shot is a miss.
\<close>

definition tankShot :: "box \<Rightarrow> box \<Rightarrow> real \<Rightarrow> real \<Rightarrow> real \<Rightarrow> real \<Rightarrow> real \<Rightarrow> error + bool" where
  "tankShot targetBox obstacleBox x0 y0 v theta g =
     (case trajectory x0 y0 v theta g 10000 of
        Inl e \<Rightarrow> Inl e
      | Inr (NanPoints n) \<Rightarrow> Inr False
      | Inr (Points x y) \<Rightarrow>
          (case endTrajectoryAtIntersection x y obstacleBox of
             Inl e \<Rightarrow> Inl e
           | Inr (x', y') \<Rightarrow>
               (case firstInBox x' y' targetBox of
                  Inl e \<Rightarrow> Inl e
                | Inr j \<Rightarrow> Inr (0 \<le> j))))"

subsection \<open>The shot in rounded arithmetic\<close>

text \<open>
  The definitions above compute with real numbers. Python and numpy compute with IEEE 754
  doubles: the result of every operation is rounded. The functions of this subsection are
  \<^verbatim>\<open>trajectory\<close> and \<^verbatim>\<open>tankShot\<close> once more, with a function \<open>rnd\<close> applied to the result of
  every operation. With the identity for \<open>rnd\<close> they are the functions above; with
  \<open>binary64\<close> they compute as the program does. Overflow, infinities and nan are not
  represented, and \<^verbatim>\<open>np.sqrt\<close>, \<^verbatim>\<open>np.sin\<close>, \<^verbatim>\<open>np.cos\<close> and the square of the scalar \<^verbatim>\<open>vy/g\<close>
  are taken as correctly rounded.
\<close>

text \<open>The nearest integer, and the even one of two that are equally near.\<close>

definition round_even :: "real \<Rightarrow> int" where
  "round_even q =
     (let f = \<lfloor>q\<rfloor>
      in if q - of_int f < 1 / 2 then f
         else if 1 / 2 < q - of_int f then f + 1
         else if even f then f else f + 1)"

text \<open>
  Rounding to double precision, to nearest and ties to even: a number \<open>x\<close> with
  \<open>2\<^sup>e \<le> |x| < 2\<^sup>e\<^sup>+\<^sup>1\<close> has 53 significant bits and becomes the nearest multiple of \<open>2\<^sup>e\<^sup>-\<^sup>5\<^sup>2\<close>;
  below \<open>2\<^sup>-\<^sup>1\<^sup>0\<^sup>2\<^sup>2\<close> the exponent stays -1022 (subnormal numbers).
\<close>

definition exponent :: "real \<Rightarrow> int" where
  "exponent x = max \<lfloor>log 2 \<bar>x\<bar>\<rfloor> (- 1022)"

definition binary64 :: "real \<Rightarrow> real" where
  "binary64 x =
     (if x = 0 then 0
      else of_int (round_even (x / 2 powi (exponent x - 52))) * 2 powi (exponent x - 52))"

text \<open>
  Modelled from the spec: numpy is not part of the source. For more than one sample
  \<^verbatim>\<open>np.linspace\<close> computes \<^verbatim>\<open>step = (stop - start)/(num - 1)\<close> and the samples
  \<^verbatim>\<open>arange(0, num) * step + start\<close>, or \<^verbatim>\<open>arange(0, num)/(num - 1) * (stop - start) + start\<close>
  when \<open>step\<close> is 0, and then stores \<open>stop\<close> in the last sample ("inclusive of both
  endpoints"). A single sample is \<^verbatim>\<open>0 * (stop - start) + start\<close>.
\<close>

definition linspace_rounded :: "(real \<Rightarrow> real) \<Rightarrow> real \<Rightarrow> real \<Rightarrow> int \<Rightarrow> error + real list" where
  "linspace_rounded rnd start stop num =
     (if num < 0 then Inl ValueError
      else if num = 0 then Inr []
      else if num = 1 then Inr [rnd (rnd (0 * rnd (stop - start)) + start)]
      else
        (let d = real (nat num - 1);
             delta = rnd (stop - start);
             step = rnd (delta / d)
         in Inr (map (\<lambda>i. rnd ((if step = 0 then rnd (rnd (real i / d) * delta)
                                   else rnd (real i * step)) + start))
                   [0..<nat num - 1] @ [stop])))"

text \<open>
  The operations of \<^verbatim>\<open>trajectory\<close> in Python's order of evaluation: \<^verbatim>\<open>(vy/g)**2\<close> is the
  product of \<^verbatim>\<open>vy/g\<close> with itself, \<^verbatim>\<open>0.5 * g * t**2\<close> is \<^verbatim>\<open>(0.5 * g) * (t * t)\<close>, the sum
  \<^verbatim>\<open>y0 + vy * t - ..\<close> is taken from the left, and \<^verbatim>\<open>np.deg2rad\<close> multiplies by the double
  \<^verbatim>\<open>pi/180\<close>.
\<close>

definition tfinal_rounded :: "(real \<Rightarrow> real) \<Rightarrow> real \<Rightarrow> real \<Rightarrow> real \<Rightarrow> real" where
  "tfinal_rounded rnd vy g y0 =
     rnd (rnd (vy / g) +
          rnd (sqrt (rnd (rnd (rnd (vy / g) * rnd (vy / g)) + rnd (rnd (2 * y0) / g)))))"

definition trajectory_rounded ::
  "(real \<Rightarrow> real) \<Rightarrow> real \<Rightarrow> real \<Rightarrow> real \<Rightarrow> real \<Rightarrow> real \<Rightarrow> int \<Rightarrow> error + samples" where
  "trajectory_rounded rnd x0 y0 v theta g npts =
     (let rad = rnd (theta * rnd (rnd pi / 180));
          vy = rnd (v * rnd (sin rad));
          vx = rnd (v * rnd (cos rad))
      in if g = 0 then Inl ZeroDivisionError
         else if rnd (rnd (rnd (vy / g) * rnd (vy / g)) + rnd (rnd (2 * y0) / g)) < 0 then
           (if npts < 0 then Inl ValueError else Inr (NanPoints (nat npts)))
         else
           (case linspace_rounded rnd 0 (tfinal_rounded rnd vy g y0) npts of
              Inl e \<Rightarrow> Inl e
            | Inr t \<Rightarrow>
                Inr (Points (map (\<lambda>ti. rnd (x0 + rnd (vx * ti))) t)
                            (map (\<lambda>ti. rnd (rnd (y0 + rnd (vy * ti))
                                            - rnd (rnd (0.5 * g) * rnd (ti * ti)))) t))))"

definition tankShot_rounded ::
  "(real \<Rightarrow> real) \<Rightarrow> box \<Rightarrow> box \<Rightarrow> real \<Rightarrow> real \<Rightarrow> real \<Rightarrow> real \<Rightarrow> real \<Rightarrow> error + bool" where
  "tankShot_rounded rnd targetBox obstacleBox x0 y0 v theta g =
     (case trajectory_rounded rnd x0 y0 v theta g 10000 of
        Inl e \<Rightarrow> Inl e
      | Inr (NanPoints n) \<Rightarrow> Inr False
      | Inr (Points x y) \<Rightarrow>
          (case endTrajectoryAtIntersection x y obstacleBox of
             Inl e \<Rightarrow> Inl e
           | Inr (x', y') \<Rightarrow>
               (case firstInBox x' y' targetBox of
                  Inl e \<Rightarrow> Inl e
                | Inr j \<Rightarrow> Inr (0 \<le> j))))"

subsection \<open>getNumberInput\<close>

text \<open>
  Modelled from the spec: Python's \<^verbatim>\<open>input\<close> and \<^verbatim>\<open>float\<close> are not part of the source.
  Standard input is the list of the lines still to be read, and a line is what \<^verbatim>\<open>float\<close>
  makes of it: \<open>Number r\<close> for a line "parseable as a real number", \<open>NotANumber\<close> for a
  line on which \<^verbatim>\<open>float\<close> raises ValueError. At the end of the input \<^verbatim>\<open>input\<close> raises
  EOFError. Lines that \<^verbatim>\<open>float\<close> reads as nan or as an infinity are not represented, and
  neither is an interrupt from the keyboard.
\<close>

datatype line = Number real | NotANumber

text \<open>
  An element of \<^verbatim>\<open>validRange\<close>: a float, or an infinity (the default range is
  \<^verbatim>\<open>[-np.Inf, np.Inf]\<close>). \<open>bound_le b num\<close> is \<^verbatim>\<open>num >= b\<close> and \<open>le_bound num b\<close> is
  \<^verbatim>\<open>num <= b\<close>.
\<close>

datatype bound = MinusInf | Num real | PlusInf

fun bound_le :: "bound \<Rightarrow> real \<Rightarrow> bool" where
  "bound_le MinusInf num = True"
| "bound_le (Num b) num = (b \<le> num)"
| "bound_le PlusInf num = False"

fun le_bound :: "real \<Rightarrow> bound \<Rightarrow> bool" where
  "le_bound num MinusInf = False"
| "le_bound num (Num b) = (num \<le> b)"
| "le_bound num PlusInf = True"

text \<open>The body of the \<^verbatim>\<open>try\<close>: \<^verbatim>\<open>float(input(prompt))\<close>, which reads the first line.\<close>

fun float_input :: "line list \<Rightarrow> error + real" where
  "float_input [] = Inl EOFError"
| "float_input (NotANumber # rest) = Inl ValueError"
| "float_input (Number num # rest) = Inr num"

text \<open>
  \<^verbatim>\<open>while True: try: num = float(input(prompt))\<close>, \<^verbatim>\<open>except Exception:\<close> print and go on,
  \<^verbatim>\<open>else: if (num >= validRange[0] and num <= validRange[1]): return num\<close>, otherwise print
  and go on. The handler catches every exception of the \<^verbatim>\<open>try\<close>, and the line read is used
  up. At the end of the input each call of \<^verbatim>\<open>input\<close> raises EOFError, which the handler
  catches as well: the loop goes on for ever and the function does not return, the value
  \<open>None\<close>. A result holds the number returned and the lines that are left.
\<close>

fun getNumberInput :: "bound \<times> bound \<Rightarrow> line list \<Rightarrow> (error + real \<times> line list) option" where
  "getNumberInput validRange [] = None"
| "getNumberInput validRange (l # rest) =
     (case float_input (l # rest) of
        Inl e \<Rightarrow> getNumberInput validRange rest
      | Inr num \<Rightarrow>
          if bound_le (fst validRange) num \<and> le_bound num (snd validRange)
          then Some (Inr (num, rest))
          else getNumberInput validRange rest)"

subsection \<open>oneTurn\<close>

text \<open>
  \<^verbatim>\<open>v = getNumberInput(..)\<close>, \<^verbatim>\<open>theta = getNumberInput(..)\<close> with the default range; player 1
  shoots from \<^verbatim>\<open>tank1box\<close> at \<^verbatim>\<open>tank2box\<close>, any other player number from \<^verbatim>\<open>tank2box\<close> at
  \<^verbatim>\<open>tank1box\<close>; \<^verbatim>\<open>x0 = 0.5*(origin[0] + origin[1])\<close>, \<^verbatim>\<open>y0 = 0.5*(origin[2] + origin[3])\<close>;
  \<^verbatim>\<open>hit = tankShot(target, obstacleBox, x0,y0,v,theta,g)\<close>; the result is \<^verbatim>\<open>playerNum\<close> on a
  hit and 0 on a miss. An exception of the shot passes to the caller.
\<close>

definition oneTurn :: "box \<Rightarrow> box \<Rightarrow> box \<Rightarrow> int \<Rightarrow> real \<Rightarrow> line list \<Rightarrow> (error + int \<times> line list) option" where
  "oneTurn tank1box tank2box obstacleBox playerNum g lines =
     (case getNumberInput (MinusInf, PlusInf) lines of
        None \<Rightarrow> None
      | Some (Inl e) \<Rightarrow> Some (Inl e)
      | Some (Inr (v, lines1)) \<Rightarrow>
          (case getNumberInput (MinusInf, PlusInf) lines1 of
             None \<Rightarrow> None
           | Some (Inl e) \<Rightarrow> Some (Inl e)
           | Some (Inr (theta, lines2)) \<Rightarrow>
               (let (target, origin) =
                      (if playerNum = 1 then (tank2box, tank1box) else (tank1box, tank2box))
                in case origin of (o0, o1, o2, o3) \<Rightarrow>
                   (let x0 = 0.5 * (o0 + o1);
                        y0 = 0.5 * (o2 + o3)
                    in case tankShot target obstacleBox x0 y0 v theta g of
                         Inl e \<Rightarrow> Some (Inl e)
                       | Inr hit \<Rightarrow> Some (Inr (if hit then playerNum else 0, lines2))))))"

subsection \<open>playGame\<close>

text \<open>Each prompt that returns has used up at least one line.\<close>

lemma getNumberInput_shorter:
  "getNumberInput validRange lines = Some (Inr (num, rest)) \<Longrightarrow> length rest < length lines"
proof (induction lines)
  case Nil
  then show ?case by simp
next
  case (Cons l lines)
  then show ?case by (cases l) (auto split: if_splits)
qed

lemma oneTurn_shorter:
  "oneTurn tank1box tank2box obstacleBox playerNum g lines = Some (Inr (winner, rest))
     \<Longrightarrow> length rest < length lines"
  by (auto simp: oneTurn_def Let_def split: option.splits sum.splits prod.splits if_splits
      dest!: getNumberInput_shorter)

text \<open>
  \<^verbatim>\<open>playerNum = 1\<close>, then \<^verbatim>\<open>while True: winner = oneTurn(..); if (winner): break\<close>,
  \<^verbatim>\<open>input ("hit enter to continue >")\<close>, and \<^verbatim>\<open>playerNum\<close> changes from 1 to 2 and from
  anything else to 1. The call of \<^verbatim>\<open>input\<close> reads one line whatever it holds and is not
  guarded: at the end of the input its EOFError ends the game. The first component of the
  result lists the value of \<^verbatim>\<open>playerNum\<close> at each call of \<^verbatim>\<open>oneTurn\<close>, which \<^verbatim>\<open>drawBoard\<close>
  shows as the title of the board. The second is the winner that the last line of
  \<^verbatim>\<open>playGame\<close> congratulates, or the exception raised, or \<open>None\<close> when a prompt does not
  return.
\<close>

function playGame_loop ::
  "box \<Rightarrow> box \<Rightarrow> box \<Rightarrow> real \<Rightarrow> int \<Rightarrow> line list \<Rightarrow> int list \<times> (error + int) option" where
  "playGame_loop tank1box tank2box obstacleBox g playerNum lines =
     (case oneTurn tank1box tank2box obstacleBox playerNum g lines of
        None \<Rightarrow> ([playerNum], None)
      | Some (Inl e) \<Rightarrow> ([playerNum], Some (Inl e))
      | Some (Inr (winner, rest)) \<Rightarrow>
          if winner \<noteq> 0 then ([playerNum], Some (Inr winner))
          else (case rest of
                  [] \<Rightarrow> ([playerNum], Some (Inl EOFError))
                | ack # rest' \<Rightarrow>
                    (case playGame_loop tank1box tank2box obstacleBox g
                            (if playerNum = 1 then 2 else 1) rest' of
                       (turns, result) \<Rightarrow> (playerNum # turns, result))))"
  by pat_completeness auto

termination
proof (relation "measure (\<lambda>(t1, t2, ob, g, p, lines). length lines)")
  show "wf (measure (\<lambda>(t1, t2, ob, g, p, lines). length lines))" by simp
next
  fix tank1box tank2box obstacleBox :: box and g :: real and playerNum :: int
    and lines rest rest' :: "line list" and x2 :: "error + int \<times> line list" and b :: "int \<times> line list"
    and winner :: int and ack :: line
  assume "oneTurn tank1box tank2box obstacleBox playerNum g lines = Some x2"
    and "x2 = Inr b" and "(winner, rest) = b" and "\<not> winner \<noteq> 0" and "rest = ack # rest'"
  then have "length rest < length lines" by (auto dest: oneTurn_shorter)
  with \<open>rest = ack # rest'\<close>
  show "((tank1box, tank2box, obstacleBox, g, if playerNum = 1 then 2 else 1, rest'),
          tank1box, tank2box, obstacleBox, g, playerNum, lines)
        \<in> measure (\<lambda>(t1, t2, ob, g, p, lines). length lines)"
    by simp
qed

declare playGame_loop.simps [simp del]

definition playGame :: "box \<Rightarrow> box \<Rightarrow> box \<Rightarrow> real \<Rightarrow> line list \<Rightarrow> int list \<times> (error + int) option" where
  "playGame tank1box tank2box obstacleBox g lines =
     playGame_loop tank1box tank2box obstacleBox g 1 lines"

subsection \<open>Vocabulary of the specification\<close>

text \<open>A point \<open>(px, py)\<close> lies in a box, bounds included.\<close>

definition inside :: "box \<Rightarrow> real \<Rightarrow> real \<Rightarrow> bool" where
  "inside box px py =
     (case box of (l, r, b, t) \<Rightarrow> l \<le> px \<and> px \<le> r \<and> b \<le> py \<and> py \<le> t)"

text \<open>A line that \<^verbatim>\<open>getNumberInput\<close> is to return: a number within the range, bounds included.\<close>

definition accepted :: "bound \<times> bound \<Rightarrow> line \<Rightarrow> bool" where
  "accepted validRange l =
     (case l of
        NotANumber \<Rightarrow> False
      | Number num \<Rightarrow> bound_le (fst validRange) num \<and> le_bound num (snd validRange))"

text \<open>The centre of a box.\<close>

definition centre :: "box \<Rightarrow> real \<times> real" where
  "centre box = (case box of (l, r, b, t) \<Rightarrow> ((l + r) / 2, (b + t) / 2))"

text \<open>
  \<open>after_misses .. N playerNum lines\<close>: the first \<open>N\<close> turns, starting with \<open>playerNum\<close> on
  the input \<open>lines\<close>, are all misses and each is followed by a line for the pause. The
  value is the player whose turn is next and the lines that are left.
\<close>

fun after_misses ::
  "box \<Rightarrow> box \<Rightarrow> box \<Rightarrow> real \<Rightarrow> nat \<Rightarrow> int \<Rightarrow> line list \<Rightarrow> (int \<times> line list) option" where
  "after_misses tank1box tank2box obstacleBox g 0 playerNum lines = Some (playerNum, lines)"
| "after_misses tank1box tank2box obstacleBox g (Suc n) playerNum lines =
     (case oneTurn tank1box tank2box obstacleBox playerNum g lines of
        Some (Inr (winner, ack # rest)) \<Rightarrow>
          if winner = 0
          then after_misses tank1box tank2box obstacleBox g n (if playerNum = 1 then 2 else 1) rest
          else None
      | _ \<Rightarrow> None)"

text \<open>
  The lines of one turn: any number of lines that are not numbers, the velocity, again any
  number of lines that are not numbers, and the angle.
\<close>

datatype entry = Entry (junk_v: nat) (velocity: real) (junk_theta: nat) (angle: real)

definition turn_lines :: "entry \<Rightarrow> line list" where
  "turn_lines e =
     replicate (junk_v e) NotANumber @ Number (velocity e) #
     replicate (junk_theta e) NotANumber @ [Number (angle e)]"

text \<open>The lines of turns that miss, each followed by the line that ends the pause.\<close>

definition miss_lines :: "(entry \<times> line) list \<Rightarrow> line list" where
  "miss_lines ms = concat (map (\<lambda>(e, ack). turn_lines e @ [ack]) ms)"

text \<open>
  The shot of player \<open>p\<close> with the velocity and angle entered: from the centre of the
  player's own box at the other box.
\<close>

definition shot :: "box \<Rightarrow> box \<Rightarrow> box \<Rightarrow> real \<Rightarrow> int \<Rightarrow> entry \<Rightarrow> error + bool" where
  "shot t1 t2 ob g p e =
     tankShot (if p = 1 then t2 else t1) ob
       (fst (centre (if p = 1 then t1 else t2))) (snd (centre (if p = 1 then t1 else t2)))
       (velocity e) (angle e) g"

text \<open>
  What the statements below use of a rounding function: it keeps the order and it keeps 0.
\<close>

definition rounding :: "(real \<Rightarrow> real) \<Rightarrow> bool" where
  "rounding rnd \<longleftrightarrow> (\<forall>a b. a \<le> b \<longrightarrow> rnd a \<le> rnd b) \<and> rnd 0 = 0"

section \<open>Auxiliary lemmas\<close>

subsection \<open>The scan\<close>

lemma firstInBox_loop_none:
  "length x \<le> length y \<Longrightarrow> \<forall>k. i \<le> k \<and> k < length x \<longrightarrow> \<not> inside box (x ! k) (y ! k)
     \<Longrightarrow> firstInBox_loop x y box i = Inr (- 1)"
proof (induction x y box i rule: firstInBox_loop.induct)
  case (1 x y b0 b1 b2 b3 i)
  show ?case
  proof (cases "i < length x")
    case False
    then show ?thesis by (simp add: firstInBox_loop.simps)
  next
    case True
    with "1.prems" have out: "\<not> inside (b0, b1, b2, b3) (x ! i) (y ! i)" and iy: "i < length y"
      by auto
    have rest: "\<forall>k. Suc i \<le> k \<and> k < length x \<longrightarrow> \<not> inside (b0, b1, b2, b3) (x ! k) (y ! k)"
      using "1.prems"(2) by auto
    show ?thesis
    proof (cases "b0 \<le> x ! i \<and> x ! i \<le> b1")
      case inx: True
      with out have ny: "\<not> (b2 \<le> y ! i \<and> y ! i \<le> b3)" by (auto simp: inside_def)
      have "firstInBox_loop x y (b0, b1, b2, b3) (Suc i) = Inr (- 1)"
        using "1.IH"(1) [OF True inx iy ny "1.prems"(1) rest] .
      with True inx iy ny show ?thesis by (auto simp: firstInBox_loop.simps [of x y b0 b1 b2 b3 i])
    next
      case nx: False
      have "firstInBox_loop x y (b0, b1, b2, b3) (Suc i) = Inr (- 1)"
        using "1.IH"(2) [OF True nx "1.prems"(1) rest] .
      with True nx show ?thesis by (auto simp: firstInBox_loop.simps [of x y b0 b1 b2 b3 i])
    qed
  qed
qed

lemma firstInBox_loop_found:
  "length x \<le> length y \<Longrightarrow> i \<le> j \<Longrightarrow> j < length x \<Longrightarrow> inside box (x ! j) (y ! j)
     \<Longrightarrow> \<forall>k. i \<le> k \<and> k < j \<longrightarrow> \<not> inside box (x ! k) (y ! k)
     \<Longrightarrow> firstInBox_loop x y box i = Inr (int j)"
proof (induction x y box i rule: firstInBox_loop.induct)
  case (1 x y b0 b1 b2 b3 i)
  from "1.prems" have ix: "i < length x" and iy: "i < length y" by auto
  show ?case
  proof (cases "i = j")
    case True
    with "1.prems"(4) ix iy show ?thesis
      by (simp add: firstInBox_loop.simps [of x y b0 b1 b2 b3 j] inside_def)
  next
    case False
    with "1.prems" have lt: "i < j" and sj: "Suc i \<le> j" by auto
    with "1.prems"(5) have out: "\<not> inside (b0, b1, b2, b3) (x ! i) (y ! i)" by auto
    have rest: "\<forall>k. Suc i \<le> k \<and> k < j \<longrightarrow> \<not> inside (b0, b1, b2, b3) (x ! k) (y ! k)"
      using "1.prems"(5) by auto
    show ?thesis
    proof (cases "b0 \<le> x ! i \<and> x ! i \<le> b1")
      case inx: True
      with out have ny: "\<not> (b2 \<le> y ! i \<and> y ! i \<le> b3)" by (auto simp: inside_def)
      have "firstInBox_loop x y (b0, b1, b2, b3) (Suc i) = Inr (int j)"
        using "1.IH"(1) [OF ix inx iy ny "1.prems"(1) sj "1.prems"(3) "1.prems"(4) rest] .
      with ix inx iy ny show ?thesis
        by (auto simp: firstInBox_loop.simps [of x y b0 b1 b2 b3 i])
    next
      case nx: False
      have "firstInBox_loop x y (b0, b1, b2, b3) (Suc i) = Inr (int j)"
        using "1.IH"(2) [OF ix nx "1.prems"(1) sj "1.prems"(3) "1.prems"(4) rest] .
      with ix nx show ?thesis
        by (auto simp: firstInBox_loop.simps [of x y b0 b1 b2 b3 i])
    qed
  qed
qed

subsection \<open>The sample times and the flight time\<close>

lemma linspace_ok:
  "0 \<le> n \<Longrightarrow> \<exists>t. linspace a b n = Inr t \<and> length t = nat n"
  by (auto simp: linspace_def)

lemma linspace_hd:
  "0 < n \<Longrightarrow> linspace a b n = Inr t \<Longrightarrow> t ! 0 = a"
  by (auto simp: linspace_def split: if_splits)

lemma linspace_last:
  assumes "2 \<le> n" and "linspace a b n = Inr t"
  shows "last t = b"
proof -
  from assms have t: "t = map (\<lambda>i. a + real i * ((b - a) / real (nat n - 1))) [0..<nat n]"
    by (auto simp: linspace_def split: if_splits)
  from assms(1) have n: "nat n \<noteq> 0" "real (nat n - 1) \<noteq> 0" by auto
  then have "last t = a + real (nat n - 1) * ((b - a) / real (nat n - 1))"
    unfolding t by (simp add: last_map last_upt)
  with n show ?thesis by simp
qed

lemma linspace_range:
  assumes "0 \<le> n" and "linspace 0 b n = Inr t" and "0 \<le> b" and "ti \<in> set t"
  shows "0 \<le> ti \<and> ti \<le> b"
proof (cases "n = 1")
  case True
  with assms show ?thesis by (auto simp: linspace_def)
next
  case False
  with assms obtain i where i: "i < nat n" and ti: "ti = real i * (b / real (nat n - 1))"
    by (auto simp: linspace_def split: if_splits)
  from i False assms(1) have pos: "0 < real (nat n - 1)" by auto
  from i have le: "real i \<le> real (nat n - 1)" by auto
  have "0 \<le> real i * (b / real (nat n - 1))" using assms(3) pos by simp
  moreover have "real i * (b / real (nat n - 1)) \<le> b"
  proof -
    have "real i * b \<le> real (nat n - 1) * b" using le assms(3) by (rule mult_right_mono)
    then show ?thesis using pos by (simp add: field_simps)
  qed
  ultimately show ?thesis using ti by simp
qed

lemma tfinal_root:
  assumes "g \<noteq> 0" and "0 \<le> (vy / g)\<^sup>2 + 2 * y0 / g"
  shows "0.5 * g * (tfinal vy g y0)\<^sup>2 - vy * tfinal vy g y0 - y0 = 0"
proof -
  define r where "r = sqrt ((vy / g)\<^sup>2 + 2 * y0 / g)"
  have r2: "r\<^sup>2 = (vy / g)\<^sup>2 + 2 * y0 / g" using assms(2) by (simp add: r_def)
  have tf: "tfinal vy g y0 = vy / g + r" by (simp add: tfinal_def r_def)
  have "(vy / g + r)\<^sup>2 = 2 * (vy / g)\<^sup>2 + 2 * (vy / g) * r + 2 * y0 / g"
    using r2 by (simp add: power2_sum)
  then have "0.5 * g * (vy / g + r)\<^sup>2 = g * (vy / g)\<^sup>2 + g * (vy / g) * r + g * (y0 / g)"
    by (simp add: algebra_simps)
  also have "\<dots> = vy * (vy / g) + vy * r + y0"
    using assms(1) by (simp add: power2_eq_square)
  finally show ?thesis unfolding tf by (simp add: algebra_simps)
qed

lemma tfinal_nonneg:
  assumes "0 < g" and "0 \<le> y0"
  shows "0 \<le> tfinal vy g y0"
proof -
  have "(vy / g)\<^sup>2 \<le> (vy / g)\<^sup>2 + 2 * y0 / g" using assms by simp
  then have "sqrt ((vy / g)\<^sup>2) \<le> sqrt ((vy / g)\<^sup>2 + 2 * y0 / g)" by (rule real_sqrt_le_mono)
  then have "\<bar>vy / g\<bar> \<le> sqrt ((vy / g)\<^sup>2 + 2 * y0 / g)" by simp
  then show ?thesis unfolding tfinal_def by linarith
qed

lemma tfinal_unique:
  assumes g: "0 < g" and y0: "0 < y0" and t: "0 \<le> t"
    and root: "0.5 * g * t\<^sup>2 - vy * t - y0 = 0"
  shows "t = tfinal vy g y0"
proof -
  define a where "a = vy / g"
  define r where "r = sqrt (a\<^sup>2 + 2 * y0 / g)"
  have pos: "0 < 2 * y0 / g" using g y0 by simp
  then have r2: "r\<^sup>2 = a\<^sup>2 + 2 * y0 / g" by (simp add: r_def)
  have "a\<^sup>2 < a\<^sup>2 + 2 * y0 / g" using pos by simp
  then have "sqrt (a\<^sup>2) < r" unfolding r_def by (rule real_sqrt_less_mono)
  then have ar: "\<bar>a\<bar> < r" by simp
  have vy: "vy = a * g" using g by (simp add: a_def)
  from root have "g * t\<^sup>2 - 2 * (a * g) * t - 2 * y0 = 0" unfolding vy by simp
  then have "g * (t\<^sup>2 - 2 * a * t - 2 * y0 / g) = 0" using g by (simp add: algebra_simps)
  with g have "t\<^sup>2 - 2 * a * t - 2 * y0 / g = 0" by simp
  then have "(t - a)\<^sup>2 = r\<^sup>2" unfolding r2 by (simp add: power2_diff algebra_simps)
  then have "t - a = r \<or> t - a = - r" by (simp add: power2_eq_iff)
  moreover have "t - a \<noteq> - r" using ar t by linarith
  ultimately have "t = a + r" by simp
  then show ?thesis by (simp add: tfinal_def a_def r_def)
qed

lemma trajectory_PointsD:
  assumes "trajectory x0 y0 v theta g npts = Inr (Points x y)"
  shows "g \<noteq> 0 \<and> 0 \<le> (v * sin (deg2rad theta) / g)\<^sup>2 + 2 * y0 / g \<and> 0 \<le> npts \<and>
         (\<exists>t. linspace 0 (tfinal (v * sin (deg2rad theta)) g y0) npts = Inr t \<and>
              length t = nat npts \<and>
              x = map (\<lambda>ti. x0 + v * cos (deg2rad theta) * ti) t \<and>
              y = map (\<lambda>ti. y0 + v * sin (deg2rad theta) * ti - 0.5 * g * ti\<^sup>2) t)"
proof -
  from assms have g: "g \<noteq> 0" and rad: "0 \<le> (v * sin (deg2rad theta) / g)\<^sup>2 + 2 * y0 / g"
    by (auto simp: trajectory_def Let_def split: if_splits)
  from assms g rad have n: "0 \<le> npts"
    by (auto simp: trajectory_def Let_def linspace_def split: if_splits sum.splits)
  from linspace_ok [OF n] obtain t
    where t: "linspace 0 (tfinal (v * sin (deg2rad theta)) g y0) npts = Inr t" "length t = nat npts"
    by blast
  with assms g rad n show ?thesis
    by (auto simp: trajectory_def Let_def)
qed

lemma trajectory_PointsI:
  assumes "g \<noteq> 0" and "0 \<le> (v * sin (deg2rad theta) / g)\<^sup>2 + 2 * y0 / g" and "0 \<le> npts"
  shows "\<exists>t. linspace 0 (tfinal (v * sin (deg2rad theta)) g y0) npts = Inr t \<and>
              length t = nat npts \<and>
              trajectory x0 y0 v theta g npts =
                Inr (Points (map (\<lambda>ti. x0 + v * cos (deg2rad theta) * ti) t)
                            (map (\<lambda>ti. y0 + v * sin (deg2rad theta) * ti - 0.5 * g * ti\<^sup>2) t))"
proof -
  from linspace_ok [OF assms(3)] obtain t
    where t: "linspace 0 (tfinal (v * sin (deg2rad theta)) g y0) npts = Inr t" "length t = nat npts"
    by blast
  with assms show ?thesis by (auto simp: trajectory_def Let_def)
qed

lemma trajectory_lengths:
  "trajectory x0 y0 v theta g npts = Inr (Points x y) \<Longrightarrow> length x = nat npts \<and> length y = nat npts"
  by (drule trajectory_PointsD) auto

lemma trajectory_origin:
  assumes "trajectory x0 y0 v theta g npts = Inr (Points x y)" and "0 < npts"
  shows "x ! 0 = x0 \<and> y ! 0 = y0"
proof -
  from trajectory_PointsD [OF assms(1)] obtain t
    where t: "linspace 0 (tfinal (v * sin (deg2rad theta)) g y0) npts = Inr t" "length t = nat npts"
      and x: "x = map (\<lambda>ti. x0 + v * cos (deg2rad theta) * ti) t"
      and y: "y = map (\<lambda>ti. y0 + v * sin (deg2rad theta) * ti - 0.5 * g * ti\<^sup>2) t"
    by blast
  from linspace_hd [OF assms(2) t(1)] have "t ! 0 = 0" .
  moreover from t(2) assms(2) have "0 < length t" by simp
  ultimately show ?thesis by (simp add: x y)
qed


subsection \<open>Truncation and the shot\<close>

lemma first_index_exists:
  "\<exists>k<n. P k \<Longrightarrow> \<exists>j<n. P j \<and> (\<forall>k<j. \<not> P (k :: nat))"
proof -
  assume "\<exists>k<n. P k"
  then have "\<exists>k. k < n \<and> P k" by blast
  then obtain j where j: "j < n \<and> P j" and least: "\<forall>m<j. \<not> (m < n \<and> P m)"
    using exists_least_iff [of "\<lambda>k. k < n \<and> P k"] by blast
  have "\<forall>k<j. \<not> P k"
  proof (intro allI impI)
    fix k assume "k < j"
    with j least show "\<not> P k" by (meson less_trans)
  qed
  with j show ?thesis by blast
qed

lemma firstInBox_none:
  "length x \<le> length y \<Longrightarrow> \<forall>k<length x. \<not> inside box (x ! k) (y ! k)
     \<Longrightarrow> firstInBox x y box = Inr (- 1)"
  unfolding firstInBox_def by (rule firstInBox_loop_none) auto

lemma firstInBox_found:
  "length x \<le> length y \<Longrightarrow> j < length x \<Longrightarrow> inside box (x ! j) (y ! j)
     \<Longrightarrow> \<forall>k<j. \<not> inside box (x ! k) (y ! k) \<Longrightarrow> firstInBox x y box = Inr (int j)"
  unfolding firstInBox_def by (rule firstInBox_loop_found) auto

lemma firstInBox_sign:
  assumes "length x = length y"
  shows "\<exists>j. firstInBox x y box = Inr j \<and> (0 \<le> j \<longleftrightarrow> (\<exists>k<length x. inside box (x ! k) (y ! k)))"
proof (cases "\<exists>k<length x. inside box (x ! k) (y ! k)")
  case False
  with assms have "firstInBox x y box = Inr (- 1)" by (intro firstInBox_none) auto
  with False show ?thesis by simp
next
  case True
  from first_index_exists [OF True] obtain j
    where j: "j < length x" "inside box (x ! j) (y ! j)" "\<forall>k<j. \<not> inside box (x ! k) (y ! k)"
    by blast
  with assms have "firstInBox x y box = Inr (int j)" by (intro firstInBox_found) auto
  with True show ?thesis by simp
qed

lemma endTrajectory_takeWhile:
  assumes "length x = length y"
  shows "\<exists>x' y'. endTrajectoryAtIntersection x y box = Inr (x', y') \<and> length x' = length y' \<and>
           takeWhile (\<lambda>p. \<not> inside box (fst p) (snd p)) (zip x y) = zip x' y'"
proof (cases "\<exists>k<length x. inside box (x ! k) (y ! k)")
  case False
  with assms have "firstInBox x y box = Inr (- 1)" by (intro firstInBox_none) auto
  then have e: "endTrajectoryAtIntersection x y box = Inr (x, y)"
    by (simp add: endTrajectoryAtIntersection_def)
  have "\<forall>p\<in>set (zip x y). \<not> inside box (fst p) (snd p)"
    using False assms by (auto simp: set_zip)
  then have "takeWhile (\<lambda>p. \<not> inside box (fst p) (snd p)) (zip x y) = zip x y"
    by (simp add: takeWhile_eq_all_conv)
  with e assms show ?thesis by simp
next
  case True
  from first_index_exists [OF True] obtain j
    where j: "j < length x" "inside box (x ! j) (y ! j)" "\<forall>k<j. \<not> inside box (x ! k) (y ! k)"
    by blast
  with assms have "firstInBox x y box = Inr (int j)" by (intro firstInBox_found) auto
  then have e: "endTrajectoryAtIntersection x y box = Inr (take j x, take j y)"
    by (simp add: endTrajectoryAtIntersection_def)
  have "takeWhile (\<lambda>p. \<not> inside box (fst p) (snd p)) (zip x y) = take j (zip x y)"
  proof (rule takeWhile_eq_take_P_nth)
    fix i assume "i < j" "i < length (zip x y)"
    with j(3) assms show "\<not> inside box (fst (zip x y ! i)) (snd (zip x y ! i))" by simp
  next
    assume "j < length (zip x y)"
    with j(2) assms show "\<not> \<not> inside box (fst (zip x y ! j)) (snd (zip x y ! j))" by simp
  qed
  then have "takeWhile (\<lambda>p. \<not> inside box (fst p) (snd p)) (zip x y) = zip (take j x) (take j y)"
    by (simp add: take_zip)
  with e assms show ?thesis by simp
qed

lemma trajectory_exists:
  assumes "0 < g" and "0 \<le> y0" and "0 \<le> npts"
  shows "\<exists>x y. trajectory x0 y0 v theta g npts = Inr (Points x y)"
proof -
  from assms have "g \<noteq> 0" and "0 \<le> (v * sin (deg2rad theta) / g)\<^sup>2 + 2 * y0 / g" by simp_all
  from trajectory_PointsI [OF this assms(3)] show ?thesis by blast
qed

lemma tankShot_Points:
  assumes "trajectory x0 y0 v theta g 10000 = Inr (Points x y)"
  shows "tankShot tb ob x0 y0 v theta g =
           Inr (\<exists>p\<in>set (takeWhile (\<lambda>p. \<not> inside ob (fst p) (snd p)) (zip x y)).
                  inside tb (fst p) (snd p))"
proof -
  from trajectory_lengths [OF assms] have len: "length x = length y" by simp
  from endTrajectory_takeWhile [OF len, of ob] obtain x' y'
    where e: "endTrajectoryAtIntersection x y ob = Inr (x', y')"
      and len': "length x' = length y'"
      and z: "takeWhile (\<lambda>p. \<not> inside ob (fst p) (snd p)) (zip x y) = zip x' y'"
    by blast
  from firstInBox_sign [OF len', of tb] obtain j
    where f: "firstInBox x' y' tb = Inr j"
      and s: "0 \<le> j \<longleftrightarrow> (\<exists>k<length x'. inside tb (x' ! k) (y' ! k))"
    by blast
  have "(\<exists>k<length x'. inside tb (x' ! k) (y' ! k)) \<longleftrightarrow>
        (\<exists>p\<in>set (zip x' y'). inside tb (fst p) (snd p))"
    using len' by (auto simp: set_zip)
  with s z have "0 \<le> j \<longleftrightarrow>
      (\<exists>p\<in>set (takeWhile (\<lambda>p. \<not> inside ob (fst p) (snd p)) (zip x y)). inside tb (fst p) (snd p))"
    by simp
  with assms e f show ?thesis by (simp add: tankShot_def)
qed

lemma takeWhile_stops:
  assumes "i < length zs" and "\<not> P (zs ! i)"
  shows "length (takeWhile P zs) \<le> i"
proof (rule ccontr)
  assume "\<not> length (takeWhile P zs) \<le> i"
  then have lt: "i < length (takeWhile P zs)" by simp
  then have "takeWhile P zs ! i \<in> set (takeWhile P zs)" by simp
  then have "P (takeWhile P zs ! i)" by (auto dest: set_takeWhileD)
  with lt assms(2) show False by (simp add: takeWhile_nth)
qed

lemma tankShot_blocked:
  assumes tr: "trajectory x0 y0 v theta g 10000 = Inr (Points x y)"
    and i: "i < length x" "inside ob (x ! i) (y ! i)"
    and before: "\<forall>k<i. \<not> inside tb (x ! k) (y ! k)"
  shows "tankShot tb ob x0 y0 v theta g = Inr False"
proof -
  let ?Q = "\<lambda>p. \<not> inside ob (fst p) (snd p)"
  from trajectory_lengths [OF tr] have len: "length x = length y" by simp
  have stop: "length (takeWhile ?Q (zip x y)) \<le> i"
    using i len by (intro takeWhile_stops) simp_all
  have "\<not> (\<exists>p\<in>set (takeWhile ?Q (zip x y)). inside tb (fst p) (snd p))"
  proof
    assume "\<exists>p\<in>set (takeWhile ?Q (zip x y)). inside tb (fst p) (snd p)"
    then obtain k where k: "k < length (takeWhile ?Q (zip x y))"
      and ins: "inside tb (fst (takeWhile ?Q (zip x y) ! k)) (snd (takeWhile ?Q (zip x y) ! k))"
      by (auto simp: in_set_conv_nth)
    from k stop have ki: "k < i" by simp
    with i len have "zip x y ! k = (x ! k, y ! k)" by simp
    with k ins have "inside tb (x ! k) (y ! k)" by (simp add: takeWhile_nth)
    with before ki show False by simp
  qed
  with tankShot_Points [OF tr, of tb ob] show ?thesis by simp
qed

lemma inverted_box_empty: "r < l \<or> t < b \<Longrightarrow> \<not> inside (l, r, b, t) px py"
  by (auto simp: inside_def)

lemma tankShot_zero_gravity: "tankShot tb ob x0 y0 v theta 0 = Inl ZeroDivisionError"
  by (simp add: tankShot_def trajectory_def)

lemma tankShot_returns:
  assumes "g \<noteq> 0"
  shows "\<exists>hit. tankShot tb ob x0 y0 v theta g = Inr hit"
proof (cases "(v * sin (deg2rad theta) / g)\<^sup>2 + 2 * y0 / g < 0")
  case True
  with assms have "trajectory x0 y0 v theta g 10000 = Inr (NanPoints 10000)"
    by (simp add: trajectory_def)
  then have "tankShot tb ob x0 y0 v theta g = Inr False" by (simp add: tankShot_def)
  then show ?thesis by blast
next
  case False
  then have "0 \<le> (v * sin (deg2rad theta) / g)\<^sup>2 + 2 * y0 / g" by simp
  from trajectory_PointsI [OF assms this, of 10000 x0] obtain x y
    where "trajectory x0 y0 v theta g 10000 = Inr (Points x y)" by auto
  from tankShot_Points [OF this, of tb ob] show ?thesis by blast
qed

lemma tankShot_inverted_target:
  assumes "g \<noteq> 0" and "r < l \<or> t < b"
  shows "tankShot (l, r, b, t) ob x0 y0 v theta g = Inr False"
proof (cases "(v * sin (deg2rad theta) / g)\<^sup>2 + 2 * y0 / g < 0")
  case True
  with assms have "trajectory x0 y0 v theta g 10000 = Inr (NanPoints 10000)"
    by (simp add: trajectory_def)
  then show ?thesis by (simp add: tankShot_def)
next
  case False
  then have "0 \<le> (v * sin (deg2rad theta) / g)\<^sup>2 + 2 * y0 / g" by simp
  from trajectory_PointsI [OF assms(1) this, of 10000 x0] obtain x y
    where "trajectory x0 y0 v theta g 10000 = Inr (Points x y)" by auto
  from tankShot_Points [OF this, of "(l, r, b, t)" ob] assms(2) show ?thesis
    by (simp add: inverted_box_empty)
qed

lemma inverted_obstacle_identity:
  assumes "length x = length y" and "r < l \<or> t < b"
  shows "endTrajectoryAtIntersection x y (l, r, b, t) = Inr (x, y)"
proof -
  have "firstInBox x y (l, r, b, t) = Inr (- 1)"
    using assms by (intro firstInBox_none) (simp_all add: inverted_box_empty)
  then show ?thesis by (simp add: endTrajectoryAtIntersection_def)
qed

subsection \<open>The prompt\<close>

lemma getNumberInput_skip:
  "\<not> accepted validRange l \<Longrightarrow> getNumberInput validRange (l # lines) = getNumberInput validRange lines"
  by (cases l) (auto simp: accepted_def)

lemma getNumberInput_take:
  "accepted validRange l \<Longrightarrow> \<exists>num. l = Number num \<and> getNumberInput validRange (l # lines) = Some (Inr (num, lines))"
  by (cases l) (auto simp: accepted_def)

declare getNumberInput.simps(2) [simp del]

lemma getNumberInput_no_error: "getNumberInput validRange lines \<noteq> Some (Inl e)"
proof (induction lines)
  case Nil
  show ?case by simp
next
  case (Cons l lines)
  show ?case
  proof (cases "accepted validRange l")
    case True
    from getNumberInput_take [OF this, of lines] show ?thesis by auto
  next
    case False
    with Cons show ?thesis by (simp add: getNumberInput_skip)
  qed
qed

lemma getNumberInput_result:
  "getNumberInput validRange lines = Some (Inr (num, rest)) \<Longrightarrow>
     accepted validRange (Number num) \<and>
     (\<exists>skipped. lines = skipped @ Number num # rest \<and> (\<forall>l\<in>set skipped. \<not> accepted validRange l))"
proof (induction lines)
  case Nil
  then show ?case by simp
next
  case (Cons l lines)
  show ?case
  proof (cases "accepted validRange l")
    case True
    from getNumberInput_take [OF this, of lines] Cons.prems True show ?thesis
      by (intro conjI exI [of _ "[]"]) auto
  next
    case False
    with Cons.prems have "getNumberInput validRange lines = Some (Inr (num, rest))"
      by (simp add: getNumberInput_skip)
    from Cons.IH [OF this] obtain skipped
      where acc: "accepted validRange (Number num)"
        and s: "lines = skipped @ Number num # rest" "\<forall>l\<in>set skipped. \<not> accepted validRange l"
      by blast
    from s False have "l # lines = (l # skipped) @ Number num # rest \<and>
        (\<forall>l'\<in>set (l # skipped). \<not> accepted validRange l')" by simp
    with acc show ?thesis by blast
  qed
qed

lemma getNumberInput_None_iff:
  "getNumberInput validRange lines = None \<longleftrightarrow> (\<forall>l\<in>set lines. \<not> accepted validRange l)"
proof (induction lines)
  case Nil
  show ?case by simp
next
  case (Cons l lines)
  show ?case
  proof (cases "accepted validRange l")
    case True
    from getNumberInput_take [OF this, of lines] True show ?thesis by auto
  next
    case False
    with Cons show ?thesis by (simp add: getNumberInput_skip)
  qed
qed

subsection \<open>The game loop\<close>

lemma oneTurn_result:
  assumes "oneTurn t1 t2 ob p g lines = Some (Inr (w, rest))"
  shows "\<exists>v theta lines1 hit.
           getNumberInput (MinusInf, PlusInf) lines = Some (Inr (v, lines1)) \<and>
           getNumberInput (MinusInf, PlusInf) lines1 = Some (Inr (theta, rest)) \<and>
           tankShot (if p = 1 then t2 else t1) ob
             (fst (centre (if p = 1 then t1 else t2))) (snd (centre (if p = 1 then t1 else t2)))
             v theta g = Inr hit \<and>
           w = (if hit then p else 0)"
  using assms
  by (cases t1; cases t2)
     (auto simp: oneTurn_def centre_def Let_def split: option.splits sum.splits prod.splits if_splits)

lemma oneTurn_winner: "oneTurn t1 t2 ob p g lines = Some (Inr (w, rest)) \<Longrightarrow> w = p \<or> w = 0"
  by (drule oneTurn_result) auto

lemma playGame_loop_hit:
  "oneTurn t1 t2 ob p g lines = Some (Inr (w, rest)) \<Longrightarrow> w \<noteq> 0
     \<Longrightarrow> playGame_loop t1 t2 ob g p lines = ([p], Some (Inr p))"
  by (frule oneTurn_winner) (auto simp: playGame_loop.simps [of t1 t2 ob g p lines])

lemma playGame_loop_miss:
  "oneTurn t1 t2 ob p g lines = Some (Inr (0, ack # rest))
     \<Longrightarrow> playGame_loop t1 t2 ob g p lines =
           (p # fst (playGame_loop t1 t2 ob g (if p = 1 then 2 else 1) rest),
            snd (playGame_loop t1 t2 ob g (if p = 1 then 2 else 1) rest))"
  by (simp add: playGame_loop.simps [of t1 t2 ob g p lines] split: prod.splits)

lemma playGame_loop_first:
  "fst (playGame_loop t1 t2 ob g p lines) \<noteq> [] \<and> hd (fst (playGame_loop t1 t2 ob g p lines)) = p"
  by (simp add: playGame_loop.simps [of t1 t2 ob g p lines]
      split: option.splits sum.splits prod.splits list.splits)

lemma playGame_loop_alternates:
  "p = 1 \<or> p = 2 \<Longrightarrow> k < length (fst (playGame_loop t1 t2 ob g p lines))
     \<Longrightarrow> fst (playGame_loop t1 t2 ob g p lines) ! k = (if even k then p else 3 - p)"
proof (induction t1 t2 ob g p lines arbitrary: k rule: playGame_loop.induct)
  case (1 t1 t2 ob g p lines)
  show ?case
  proof (cases "\<exists>ack rest. oneTurn t1 t2 ob p g lines = Some (Inr (0, ack # rest))")
    case False
    then have "fst (playGame_loop t1 t2 ob g p lines) = [p]"
      by (auto simp: playGame_loop.simps [of t1 t2 ob g p lines]
          split: option.splits sum.splits prod.splits list.splits)
    with "1.prems" show ?thesis by simp
  next
    case True
    then obtain ack rest where t: "oneTurn t1 t2 ob p g lines = Some (Inr (0, ack # rest))"
      by blast
    let ?q = "if p = 1 then 2 else 1 :: int"
    note step = playGame_loop_miss [OF t]
    show ?thesis
    proof (cases k)
      case 0
      with step show ?thesis by simp
    next
      case (Suc j)
      with "1.prems"(2) step have j: "j < length (fst (playGame_loop t1 t2 ob g ?q rest))" by simp
      have q: "?q = 1 \<or> ?q = 2" by simp
      have "fst (playGame_loop t1 t2 ob g ?q rest) ! j = (if even j then ?q else 3 - ?q)"
        using "1.IH" [OF t refl refl _ refl q j] by simp
      with Suc step "1.prems"(1) show ?thesis by auto
    qed
  qed
qed

lemma playGame_loop_winner:
  "snd (playGame_loop t1 t2 ob g p lines) = Some (Inr w)
     \<Longrightarrow> w = last (fst (playGame_loop t1 t2 ob g p lines))"
proof (induction t1 t2 ob g p lines rule: playGame_loop.induct)
  case (1 t1 t2 ob g p lines)
  show ?case
  proof (cases "\<exists>ack rest. oneTurn t1 t2 ob p g lines = Some (Inr (0, ack # rest))")
    case False
    with "1.prems" show ?thesis
      by (auto simp: playGame_loop.simps [of t1 t2 ob g p lines]
          split: option.splits sum.splits prod.splits list.splits if_splits
          dest: oneTurn_winner)
  next
    case True
    then obtain ack rest where t: "oneTurn t1 t2 ob p g lines = Some (Inr (0, ack # rest))"
      by blast
    let ?q = "if p = 1 then 2 else 1 :: int"
    note step = playGame_loop_miss [OF t]
    from "1.prems" step have "snd (playGame_loop t1 t2 ob g ?q rest) = Some (Inr w)" by simp
    then have "w = last (fst (playGame_loop t1 t2 ob g ?q rest))"
      using "1.IH" [OF t refl refl _ refl] by simp
    with step playGame_loop_first [of t1 t2 ob g ?q rest] show ?thesis by simp
  qed
qed

lemma after_misses_Suc:
  assumes "after_misses t1 t2 ob g (Suc n) p lines = Some (p', lines')"
  shows "\<exists>ack rest. oneTurn t1 t2 ob p g lines = Some (Inr (0, ack # rest)) \<and>
           after_misses t1 t2 ob g n (if p = 1 then 2 else 1) rest = Some (p', lines')"
  using assms by (auto split: option.splits sum.splits prod.splits list.splits if_splits)

lemma after_misses_loop:
  "after_misses t1 t2 ob g N p lines = Some (p', lines') \<Longrightarrow>
     \<exists>pre. length pre = N \<and>
       fst (playGame_loop t1 t2 ob g p lines) = pre @ fst (playGame_loop t1 t2 ob g p' lines') \<and>
       snd (playGame_loop t1 t2 ob g p lines) = snd (playGame_loop t1 t2 ob g p' lines')"
proof (induction N arbitrary: p lines)
  case 0
  then show ?case by simp
next
  case (Suc n)
  from after_misses_Suc [OF Suc.prems] obtain ack rest
    where t: "oneTurn t1 t2 ob p g lines = Some (Inr (0, ack # rest))"
      and a: "after_misses t1 t2 ob g n (if p = 1 then 2 else 1) rest = Some (p', lines')"
    by blast
  from Suc.IH [OF a] obtain pre where pre: "length pre = n"
    "fst (playGame_loop t1 t2 ob g (if p = 1 then 2 else 1) rest)
       = pre @ fst (playGame_loop t1 t2 ob g p' lines')"
    "snd (playGame_loop t1 t2 ob g (if p = 1 then 2 else 1) rest)
       = snd (playGame_loop t1 t2 ob g p' lines')"
    by blast
  from playGame_loop_miss [OF t] pre have
    "length (p # pre) = Suc n \<and>
     fst (playGame_loop t1 t2 ob g p lines) = (p # pre) @ fst (playGame_loop t1 t2 ob g p' lines') \<and>
     snd (playGame_loop t1 t2 ob g p lines) = snd (playGame_loop t1 t2 ob g p' lines')"
    by simp
  then show ?case by blast
qed

lemma after_misses_player:
  "p = 1 \<or> p = 2 \<Longrightarrow> after_misses t1 t2 ob g N p lines = Some (p', lines')
     \<Longrightarrow> p' = (if even N then p else 3 - p)"
proof (induction N arbitrary: p lines)
  case 0
  then show ?case by simp
next
  case (Suc n)
  from after_misses_Suc [OF Suc.prems(2)] obtain ack rest
    where a: "after_misses t1 t2 ob g n (if p = 1 then 2 else 1) rest = Some (p', lines')"
    by blast
  have "(if p = 1 then 2 else 1 :: int) = 1 \<or> (if p = 1 then 2 else 1 :: int) = 2" by simp
  from Suc.IH [OF this a] Suc.prems(1) show ?case by auto
qed

lemma tankShot_origin_blocked:
  assumes "0 < g" and "0 \<le> y0" and "inside ob x0 y0"
  shows "tankShot tb ob x0 y0 v theta g = Inr False"
proof -
  obtain x y where tr: "trajectory x0 y0 v theta g 10000 = Inr (Points x y)"
    using trajectory_exists [OF assms(1,2), of 10000 x0 v theta] by auto
  from trajectory_origin [OF tr] have o: "x ! 0 = x0" "y ! 0 = y0" by simp_all
  from trajectory_lengths [OF tr] have "0 < length x" by simp
  with tr show ?thesis
    using assms(3) o by (intro tankShot_blocked [where i = 0 and x = x and y = y]) simp_all
qed

lemma tankShot_origin_hits:
  assumes "0 < g" and "0 \<le> y0" and "inside tb x0 y0" and "\<not> inside ob x0 y0"
  shows "tankShot tb ob x0 y0 v theta g = Inr True"
proof -
  obtain x y where tr: "trajectory x0 y0 v theta g 10000 = Inr (Points x y)"
    using trajectory_exists [OF assms(1,2), of 10000 x0 v theta] by auto
  from trajectory_origin [OF tr] have o: "x ! 0 = x0" "y ! 0 = y0" by simp_all
  from trajectory_lengths [OF tr] have "x \<noteq> []" "y \<noteq> []" by auto
  then obtain xs ys where "x = x0 # xs" "y = y0 # ys"
    using o by (cases x; cases y) simp_all
  then have "(x0, y0) \<in> set (takeWhile (\<lambda>p. \<not> inside ob (fst p) (snd p)) (zip x y))"
    using assms(4) by simp
  with assms(3) have "\<exists>p\<in>set (takeWhile (\<lambda>p. \<not> inside ob (fst p) (snd p)) (zip x y)).
      inside tb (fst p) (snd p)"
    by force
  with tankShot_Points [OF tr, of tb ob] show ?thesis by simp
qed

lemma getNumberInput_default:
  "getNumberInput (MinusInf, PlusInf) (replicate j NotANumber @ Number num # rest)
     = Some (Inr (num, rest))"
  by (induction j) (simp_all add: getNumberInput.simps)

lemma oneTurn_returns:
  assumes "shot t1 t2 ob g p e = Inr hit"
  shows "oneTurn t1 t2 ob p g (turn_lines e @ rest) = Some (Inr (if hit then p else 0, rest))"
proof -
  have l: "turn_lines e @ rest =
      replicate (junk_v e) NotANumber @ Number (velocity e) #
      (replicate (junk_theta e) NotANumber @ Number (angle e) # rest)"
    by (simp add: turn_lines_def)
  from assms show ?thesis
    unfolding l
    by (cases t1; cases t2)
       (auto simp: oneTurn_def getNumberInput_default shot_def centre_def Let_def)
qed

lemma oneTurn_iff:
  "oneTurn t1 t2 ob p g ls = Some (Inr (w, rest)) \<longleftrightarrow>
     (\<exists>v theta ls1 hit.
         getNumberInput (MinusInf, PlusInf) ls = Some (Inr (v, ls1)) \<and>
         getNumberInput (MinusInf, PlusInf) ls1 = Some (Inr (theta, rest)) \<and>
         tankShot (if p = 1 then t2 else t1) ob
           (fst (centre (if p = 1 then t1 else t2))) (snd (centre (if p = 1 then t1 else t2)))
           v theta g = Inr hit \<and>
         w = (if hit then p else 0))"
proof
  assume "oneTurn t1 t2 ob p g ls = Some (Inr (w, rest))"
  then show "\<exists>v theta ls1 hit.
         getNumberInput (MinusInf, PlusInf) ls = Some (Inr (v, ls1)) \<and>
         getNumberInput (MinusInf, PlusInf) ls1 = Some (Inr (theta, rest)) \<and>
         tankShot (if p = 1 then t2 else t1) ob
           (fst (centre (if p = 1 then t1 else t2))) (snd (centre (if p = 1 then t1 else t2)))
           v theta g = Inr hit \<and>
         w = (if hit then p else 0)"
    by (rule oneTurn_result)
next
  assume "\<exists>v theta ls1 hit.
         getNumberInput (MinusInf, PlusInf) ls = Some (Inr (v, ls1)) \<and>
         getNumberInput (MinusInf, PlusInf) ls1 = Some (Inr (theta, rest)) \<and>
         tankShot (if p = 1 then t2 else t1) ob
           (fst (centre (if p = 1 then t1 else t2))) (snd (centre (if p = 1 then t1 else t2)))
           v theta g = Inr hit \<and>
         w = (if hit then p else 0)"
  then show "oneTurn t1 t2 ob p g ls = Some (Inr (w, rest))"
    by (cases t1; cases t2) (auto simp: oneTurn_def centre_def Let_def)
qed

lemma shot_returns: "g \<noteq> 0 \<Longrightarrow> \<exists>hit. shot t1 t2 ob g p e = Inr hit"
  unfolding shot_def by (rule tankShot_returns)

lemma upt_Suc_shift: "map f [0..<Suc n] = f 0 # map (\<lambda>k. f (Suc k)) [0..<n]"
proof -
  have "[0..<Suc n] = 0 # map Suc [0..<n]" by (simp add: upt_conv_Cons map_Suc_upt del: upt_Suc)
  then show ?thesis by (simp add: comp_def del: upt_Suc)
qed

lemma playGame_loop_script:
  assumes "p = 1 \<or> p = 2"
    and "\<forall>k<length ms. shot t1 t2 ob g (if even k then p else 3 - p) (fst (ms ! k)) = Inr False"
    and "shot t1 t2 ob g (if even (length ms) then p else 3 - p) h = Inr True"
  shows "playGame_loop t1 t2 ob g p (miss_lines ms @ turn_lines h @ rest) =
           (map (\<lambda>k. if even k then p else 3 - p) [0..<Suc (length ms)],
            Some (Inr (if even (length ms) then p else 3 - p)))"
  using assms
proof (induction ms arbitrary: p)
  case Nil
  then have s: "shot t1 t2 ob g p h = Inr True" by simp
  from oneTurn_returns [OF s, of rest] Nil.prems(1)
  have "playGame_loop t1 t2 ob g p (turn_lines h @ rest) = ([p], Some (Inr p))"
    by (intro playGame_loop_hit [where w = p and rest = rest]) auto
  then show ?case by (simp add: miss_lines_def)
next
  case (Cons m ms)
  obtain e ack where m: "m = (e, ack)" by (cases m)
  let ?q = "if p = 1 then 2 else 1 :: int"
  from Cons.prems(1) have q: "?q = 1 \<or> ?q = 2" and q3: "?q = 3 - p" by auto
  from Cons.prems(2) have "shot t1 t2 ob g p e = Inr False"
    by (auto simp: m dest: spec [of _ 0])
  from oneTurn_returns [OF this, of "ack # miss_lines ms @ turn_lines h @ rest"]
  have t: "oneTurn t1 t2 ob p g (miss_lines (m # ms) @ turn_lines h @ rest) =
      Some (Inr (0, ack # miss_lines ms @ turn_lines h @ rest))"
    by (simp add: miss_lines_def m)
  have misses: "\<forall>k<length ms. shot t1 t2 ob g (if even k then ?q else 3 - ?q) (fst (ms ! k)) = Inr False"
  proof (intro allI impI)
    fix k assume "k < length ms"
    with Cons.prems(2) have "shot t1 t2 ob g (if even (Suc k) then p else 3 - p) (fst ((m # ms) ! Suc k)) = Inr False"
      by (auto dest: spec [of _ "Suc k"])
    with Cons.prems(1) show "shot t1 t2 ob g (if even k then ?q else 3 - ?q) (fst (ms ! k)) = Inr False"
      by auto
  qed
  have hit: "shot t1 t2 ob g (if even (length ms) then ?q else 3 - ?q) h = Inr True"
    using Cons.prems(1,3) by auto
  note IH = Cons.IH [OF q misses hit]
  have players: "map (\<lambda>k. if even k then p else 3 - p) [0..<Suc (Suc (length ms))] =
      p # map (\<lambda>k. if even k then ?q else 3 - ?q) [0..<Suc (length ms)]"
    using Cons.prems(1) by (subst upt_Suc_shift) (auto simp del: upt_Suc)
  have last: "(if even (length (m # ms)) then p else 3 - p) = (if even (length ms) then ?q else 3 - ?q)"
    using Cons.prems(1) by auto
  from playGame_loop_miss [OF t] IH show ?case
    unfolding last by (simp add: players del: upt_Suc)
qed

lemma playGame_loop_goes_on:
  assumes "p = 1 \<or> p = 2"
    and "\<forall>k<length ms. shot t1 t2 ob g (if even k then p else 3 - p) (fst (ms ! k)) = Inr False"
  shows "take (Suc (length ms)) (fst (playGame_loop t1 t2 ob g p (miss_lines ms @ rest))) =
           map (\<lambda>k. if even k then p else 3 - p) [0..<Suc (length ms)]"
  using assms
proof (induction ms arbitrary: p)
  case Nil
  from playGame_loop_first [of t1 t2 ob g p rest] show ?case
    by (cases "fst (playGame_loop t1 t2 ob g p rest)") (simp_all add: miss_lines_def)
next
  case (Cons m ms)
  obtain e ack where m: "m = (e, ack)" by (cases m)
  let ?q = "if p = 1 then 2 else 1 :: int"
  from Cons.prems(1) have q: "?q = 1 \<or> ?q = 2" by auto
  from Cons.prems(2) have "shot t1 t2 ob g p e = Inr False"
    by (auto simp: m dest: spec [of _ 0])
  from oneTurn_returns [OF this, of "ack # miss_lines ms @ rest"]
  have t: "oneTurn t1 t2 ob p g (miss_lines (m # ms) @ rest) =
      Some (Inr (0, ack # miss_lines ms @ rest))"
    by (simp add: miss_lines_def m)
  have misses: "\<forall>k<length ms. shot t1 t2 ob g (if even k then ?q else 3 - ?q) (fst (ms ! k)) = Inr False"
  proof (intro allI impI)
    fix k assume "k < length ms"
    with Cons.prems(2) have "shot t1 t2 ob g (if even (Suc k) then p else 3 - p) (fst ((m # ms) ! Suc k)) = Inr False"
      by (auto dest: spec [of _ "Suc k"])
    with Cons.prems(1) show "shot t1 t2 ob g (if even k then ?q else 3 - ?q) (fst (ms ! k)) = Inr False"
      by auto
  qed
  note IH = Cons.IH [OF q misses]
  have players: "map (\<lambda>k. if even k then p else 3 - p) [0..<Suc (Suc (length ms))] =
      p # map (\<lambda>k. if even k then ?q else 3 - ?q) [0..<Suc (length ms)]"
    using Cons.prems(1) by (subst upt_Suc_shift) (auto simp del: upt_Suc)
  from playGame_loop_miss [OF t] IH show ?case
    by (simp add: players del: upt_Suc)
qed

lemma playGame_goes_on:
  assumes "\<forall>k<length ms. shot t1 t2 ob g (if even k then 1 else 2) (fst (ms ! k)) = Inr False"
  shows "take (Suc (length ms)) (fst (playGame t1 t2 ob g (miss_lines ms @ rest))) =
           map (\<lambda>k. if even k then 1 else 2) [0..<Suc (length ms)]"
proof -
  have two: "(3::int) - 1 = 2" by simp
  from assms playGame_loop_goes_on [of 1 ms t1 t2 ob g rest, unfolded two]
  show ?thesis unfolding playGame_def by blast
qed

lemma playGame_script:
  assumes "\<forall>k<length ms. shot t1 t2 ob g (if even k then 1 else 2) (fst (ms ! k)) = Inr False"
    and "shot t1 t2 ob g (if even (length ms) then 1 else 2) h = Inr True"
  shows "playGame t1 t2 ob g (miss_lines ms @ turn_lines h @ rest) =
           (map (\<lambda>k. if even k then 1 else 2) [0..<Suc (length ms)],
            Some (Inr (if even (length ms) then 1 else 2)))"
proof -
  have two: "(3::int) - 1 = 2" by simp
  from assms playGame_loop_script [of 1 ms t1 t2 ob g h rest, unfolded two]
  show ?thesis unfolding playGame_def by blast
qed

subsection \<open>Rounded arithmetic\<close>

lemma round_even_near:
  assumes "\<bar>q - of_int m\<bar> < 1 / 2"
  shows "round_even q = m"
proof -
  from assms have "of_int m - 1 / 2 < q" "q < of_int m + 1 / 2" by linarith+
  then have "\<lfloor>q\<rfloor> = m \<or> \<lfloor>q\<rfloor> = m - 1" by linarith
  then show ?thesis
  proof
    assume f: "\<lfloor>q\<rfloor> = m"
    with \<open>q < of_int m + 1 / 2\<close> show ?thesis by (simp add: round_even_def Let_def)
  next
    assume f: "\<lfloor>q\<rfloor> = m - 1"
    with \<open>of_int m - 1 / 2 < q\<close> show ?thesis by (simp add: round_even_def Let_def)
  qed
qed

lemma round_even_half: "\<bar>q - of_int (round_even q)\<bar> \<le> 1 / 2"
proof -
  have "of_int \<lfloor>q\<rfloor> \<le> q" "q < of_int \<lfloor>q\<rfloor> + 1" by linarith+
  then show ?thesis by (auto simp: round_even_def Let_def abs_le_iff)
qed

lemma round_even_of_int: "round_even (of_int n) = n"
  by (rule round_even_near) simp

lemma round_even_mono:
  assumes "q \<le> q'"
  shows "round_even q \<le> round_even q'"
proof (rule ccontr)
  assume "\<not> round_even q \<le> round_even q'"
  then have gt: "round_even q' + 1 \<le> round_even q" by simp
  then have r: "real_of_int (round_even q') + 1 \<le> real_of_int (round_even q)" by linarith
  from round_even_half [of q] round_even_half [of q'] r assms
  have eq: "q = q'" by linarith
  with gt show False by simp
qed

lemma round_even_minus: "round_even (- q) = - round_even q"
proof (cases "q = of_int \<lfloor>q\<rfloor>")
  case True
  then obtain n where "q = of_int n" ..
  then have "- q = of_int (- n)" by simp
  with \<open>q = of_int n\<close> show ?thesis by (simp only: round_even_of_int)
next
  case False
  have lo: "of_int \<lfloor>q\<rfloor> < q" and hi: "q < of_int \<lfloor>q\<rfloor> + 1"
    using False by linarith+
  then have fm: "\<lfloor>- q\<rfloor> = - \<lfloor>q\<rfloor> - 1" by linarith
  have ev: "even (- \<lfloor>q\<rfloor> - 1) \<longleftrightarrow> odd \<lfloor>q\<rfloor>" by simp
  show ?thesis
    unfolding round_even_def Let_def fm ev using lo hi by auto
qed

lemma floor_log2_bounds:
  assumes "x \<noteq> 0"
  shows "2 powi \<lfloor>log 2 \<bar>x\<bar>\<rfloor> \<le> \<bar>x\<bar> \<and> \<bar>x\<bar> < 2 powi (\<lfloor>log 2 \<bar>x\<bar>\<rfloor> + 1)"
proof -
  from assms have pos: "0 < \<bar>x\<bar>" by simp
  have "2 powr real_of_int \<lfloor>log 2 \<bar>x\<bar>\<rfloor> \<le> \<bar>x\<bar> \<and> \<bar>x\<bar> < 2 powr real_of_int (\<lfloor>log 2 \<bar>x\<bar>\<rfloor> + 1)"
    using floor_log_eq_powr_iff [OF pos, of 2 "\<lfloor>log 2 \<bar>x\<bar>\<rfloor>"] by simp
  then show ?thesis by (simp only: powr_real_of_int' [of 2, simplified])
qed

lemma floor_log2_eq:
  assumes "2 powi E \<le> \<bar>x\<bar>" and "\<bar>x\<bar> < 2 powi (E + 1)"
  shows "\<lfloor>log 2 \<bar>x\<bar>\<rfloor> = E"
proof -
  have "0 < (2::real) powi E" by simp
  with assms(1) have pos: "0 < \<bar>x\<bar>" by linarith
  have "2 powr real_of_int E \<le> \<bar>x\<bar> \<and> \<bar>x\<bar> < 2 powr real_of_int (E + 1)"
    using assms by (simp only: powr_real_of_int' [of 2, simplified])
  then show ?thesis using floor_log_eq_powr_iff [OF pos, of 2 E] by simp
qed

lemma exponent_upper: "x \<noteq> 0 \<Longrightarrow> \<bar>x\<bar> < 2 powi (exponent x + 1)"
proof -
  assume x: "x \<noteq> 0"
  have "\<lfloor>log 2 \<bar>x\<bar>\<rfloor> + 1 \<le> exponent x + 1" by (simp add: exponent_def)
  then have "(2::real) powi (\<lfloor>log 2 \<bar>x\<bar>\<rfloor> + 1) \<le> 2 powi (exponent x + 1)"
    by (intro power_int_increasing) simp_all
  with floor_log2_bounds [OF x] show ?thesis by linarith
qed

lemma exponent_lower: "x \<noteq> 0 \<Longrightarrow> - 1022 < exponent x \<Longrightarrow> 2 powi exponent x \<le> \<bar>x\<bar>"
proof -
  assume x: "x \<noteq> 0" and "- 1022 < exponent x"
  then have "exponent x = \<lfloor>log 2 \<bar>x\<bar>\<rfloor>" by (simp add: exponent_def max_def split: if_splits)
  with floor_log2_bounds [OF x] show ?thesis by simp
qed

lemma exponent_mono:
  assumes "x \<noteq> 0" and "\<bar>x\<bar> \<le> \<bar>y\<bar>"
  shows "exponent x \<le> exponent y"
proof -
  from assms have "0 < \<bar>x\<bar>" by simp
  with assms(2) have "log 2 \<bar>x\<bar> \<le> log 2 \<bar>y\<bar>" by simp
  then have "\<lfloor>log 2 \<bar>x\<bar>\<rfloor> \<le> \<lfloor>log 2 \<bar>y\<bar>\<rfloor>" by (rule floor_mono)
  then show ?thesis by (simp add: exponent_def)
qed

lemma exponent_eq:
  assumes "2 powi E \<le> \<bar>x\<bar>" and "\<bar>x\<bar> < 2 powi (E + 1)" and "- 1022 \<le> E"
  shows "exponent x = E"
  using floor_log2_eq [OF assms(1,2)] assms(3) by (simp add: exponent_def)

lemma binary64_zero: "binary64 0 = 0"
  by (simp add: binary64_def)

lemma binary64_eqI:
  assumes "2 powi E \<le> \<bar>x\<bar>" and "\<bar>x\<bar> < 2 powi (E + 1)" and "- 1022 \<le> E"
    and "\<bar>x / 2 powi (E - 52) - of_int m\<bar> < 1 / 2"
  shows "binary64 x = of_int m * 2 powi (E - 52)"
proof -
  have "0 < \<bar>x\<bar>" by (rule less_le_trans [OF _ assms(1)]) simp
  then have x: "x \<noteq> 0" by simp
  from exponent_eq [OF assms(1-3)] round_even_near [OF assms(4)] x
  show ?thesis by (simp add: binary64_def)
qed

lemma binary64_minus: "binary64 (- x) = - binary64 x"
  by (simp add: binary64_def exponent_def round_even_minus)

lemma binary64_nonneg:
  assumes "0 \<le> x"
  shows "0 \<le> binary64 x"
proof (cases "x = 0")
  case True
  then show ?thesis by (simp add: binary64_zero)
next
  case False
  have "0 \<le> x / 2 powi (exponent x - 52)" using assms by simp
  then have "round_even 0 \<le> round_even (x / 2 powi (exponent x - 52))" by (rule round_even_mono)
  moreover have "round_even 0 = 0" using round_even_of_int [of 0] by simp
  ultimately show ?thesis using False by (simp add: binary64_def)
qed

lemma pow2_split_53: "(2::real) powi (e + 1) = 2 ^ 53 * 2 powi (e - 52)"
proof -
  have "(2::real) powi (53 + (e - 52)) = 2 powi 53 * 2 powi (e - 52)"
    by (rule power_int_add) simp
  moreover have "53 + (e - 52) = e + 1" by simp
  ultimately show ?thesis by simp
qed

lemma pow2_split_52: "(2::real) powi e = 2 ^ 52 * 2 powi (e - 52)"
proof -
  have "(2::real) powi (52 + (e - 52)) = 2 powi 52 * 2 powi (e - 52)"
    by (rule power_int_add) simp
  moreover have "52 + (e - 52) = e" by simp
  ultimately show ?thesis by simp
qed

lemma binary64_upper:
  assumes "0 < x"
  shows "binary64 x \<le> 2 powi (exponent x + 1)"
proof -
  let ?u = "(2::real) powi (exponent x - 52)"
  have u: "0 < ?u" by simp
  from assms exponent_upper [of x] have "x < 2 powi (exponent x + 1)" by simp
  also have "(2::real) powi (exponent x + 1) = 2 ^ 53 * ?u" by (rule pow2_split_53)
  finally have "x / ?u \<le> real_of_int (2 ^ 53)" using u by (simp add: field_simps)
  then have "round_even (x / ?u) \<le> round_even (real_of_int (2 ^ 53))" by (rule round_even_mono)
  then have "round_even (x / ?u) \<le> 2 ^ 53" by (simp only: round_even_of_int)
  then have "real_of_int (round_even (x / ?u)) \<le> real_of_int (2 ^ 53)"
    by (simp only: of_int_le_iff)
  then have "real_of_int (round_even (x / ?u)) \<le> 2 ^ 53" by simp
  then have "real_of_int (round_even (x / ?u)) * ?u \<le> 2 ^ 53 * ?u"
    using u by (intro mult_right_mono) simp_all
  also have "2 ^ 53 * ?u = 2 powi (exponent x + 1)" by (rule pow2_split_53 [symmetric])
  finally show ?thesis using assms by (simp add: binary64_def)
qed

lemma binary64_lower:
  assumes "0 < x" and "2 powi exponent x \<le> x"
  shows "2 powi exponent x \<le> binary64 x"
proof -
  let ?u = "(2::real) powi (exponent x - 52)"
  have u: "0 < ?u" by simp
  have e: "(2::real) powi exponent x = 2 ^ 52 * ?u" by (rule pow2_split_52)
  with assms(2) have "real_of_int (2 ^ 52) \<le> x / ?u" using u by (simp add: field_simps)
  then have "round_even (real_of_int (2 ^ 52)) \<le> round_even (x / ?u)" by (rule round_even_mono)
  then have "2 ^ 52 \<le> round_even (x / ?u)" by (simp only: round_even_of_int)
  then have "real_of_int (2 ^ 52) \<le> real_of_int (round_even (x / ?u))"
    by (simp only: of_int_le_iff)
  then have "2 ^ 52 \<le> real_of_int (round_even (x / ?u))" by simp
  then have "2 ^ 52 * ?u \<le> real_of_int (round_even (x / ?u)) * ?u"
    using u by (intro mult_right_mono) simp_all
  with e show ?thesis using assms(1) by (simp add: binary64_def)
qed

lemma binary64_mono_pos:
  assumes "0 < x" and "x \<le> y"
  shows "binary64 x \<le> binary64 y"
proof -
  from assms have y: "0 < y" by simp
  from assms have le: "exponent x \<le> exponent y" by (intro exponent_mono) simp_all
  show ?thesis
  proof (cases "exponent x = exponent y")
    case True
    let ?u = "(2::real) powi (exponent y - 52)"
    have u: "0 < ?u" by simp
    from assms(2) have "x / ?u \<le> y / ?u" using u by (simp add: divide_right_mono)
    then have "round_even (x / ?u) \<le> round_even (y / ?u)" by (rule round_even_mono)
    then have "real_of_int (round_even (x / ?u)) * ?u \<le> real_of_int (round_even (y / ?u)) * ?u"
      using u by (intro mult_right_mono) simp_all
    with assms y True show ?thesis by (simp add: binary64_def)
  next
    case False
    with le have lt: "exponent x + 1 \<le> exponent y" by simp
    have "- 1022 \<le> exponent x" by (simp add: exponent_def)
    with lt have "- 1022 < exponent y" by simp
    with y exponent_lower [of y] have low: "2 powi exponent y \<le> y" by simp
    have "binary64 x \<le> 2 powi (exponent x + 1)" using assms(1) by (rule binary64_upper)
    also have "\<dots> \<le> 2 powi exponent y" using lt by (intro power_int_increasing) simp_all
    also have "\<dots> \<le> binary64 y" using y low by (rule binary64_lower)
    finally show ?thesis .
  qed
qed

lemma binary64_mono: "x \<le> y \<Longrightarrow> binary64 x \<le> binary64 y"
proof -
  assume le: "x \<le> y"
  consider "0 < x" | "x \<le> 0" "0 \<le> y" | "y < 0" by linarith
  then show ?thesis
  proof cases
    case 1
    from 1 le show ?thesis by (rule binary64_mono_pos)
  next
    case 2
    then have "0 \<le> binary64 (- x)" "0 \<le> binary64 y" by (simp_all add: binary64_nonneg)
    then show ?thesis by (simp add: binary64_minus)
  next
    case 3
    with le have "0 < - y" "- y \<le> - x" by simp_all
    then have "binary64 (- y) \<le> binary64 (- x)" by (rule binary64_mono_pos)
    then show ?thesis by (simp add: binary64_minus)
  qed
qed

lemma linspace_rounded_exact: "linspace_rounded (\<lambda>a. a) start stop num = linspace start stop num"
proof -
  have "map (\<lambda>i. (if (stop - start) / real (nat num - 1) = 0
                   then real i / real (nat num - 1) * (stop - start)
                   else real i * ((stop - start) / real (nat num - 1))) + start)
          [0..<nat num - 1] @ [stop]
        = map (\<lambda>i. start + real i * ((stop - start) / real (nat num - 1))) [0..<nat num]"
    if n: "2 \<le> num"
  proof -
    from n obtain m where m: "nat num = Suc m" "0 < m" by (cases "nat num") auto
    have "map (\<lambda>i. start + real i * ((stop - start) / real m)) [0..<Suc m]
          = map (\<lambda>i. start + real i * ((stop - start) / real m)) [0..<m] @ [stop]"
      using m(2) by simp
    moreover have "map (\<lambda>i. (if (stop - start) / real m = 0
                   then real i / real m * (stop - start)
                   else real i * ((stop - start) / real m)) + start) [0..<m]
        = map (\<lambda>i. start + real i * ((stop - start) / real m)) [0..<m]"
      by (rule map_cong) (auto simp: algebra_simps)
    ultimately show ?thesis by (simp add: m)
  qed
  note key = this
  show ?thesis
  proof (cases "2 \<le> num")
    case True
    then have c: "\<not> num < 0" "num \<noteq> 0" "num \<noteq> 1" by simp_all
    show ?thesis
      unfolding linspace_rounded_def linspace_def Let_def
      by (simp only: c if_False key [OF True])
  next
    case False
    then show ?thesis by (auto simp: linspace_rounded_def linspace_def)
  qed
qed

lemma trajectory_rounded_exact:
  "trajectory_rounded (\<lambda>a. a) x0 y0 v theta g npts = trajectory x0 y0 v theta g npts"
proof -
  have d: "theta * (pi / 180) = deg2rad theta" by (simp add: deg2rad_def)
  have t: "tfinal_rounded (\<lambda>a. a) vy g y0 = tfinal vy g y0" for vy
    by (simp add: tfinal_rounded_def tfinal_def power2_eq_square)
  show ?thesis
    unfolding trajectory_rounded_def trajectory_def Let_def d t linspace_rounded_exact
    by (simp add: power2_eq_square cong: sum.case_cong)
qed

lemma linspace_rounded_ok:
  "0 \<le> n \<Longrightarrow> \<exists>t. linspace_rounded rnd a b n = Inr t \<and> length t = nat n"
  by (auto simp: linspace_rounded_def Let_def)

lemma linspace_rounded_last:
  "2 \<le> n \<Longrightarrow> linspace_rounded rnd a b n = Inr t \<Longrightarrow> last t = b"
  by (auto simp: linspace_rounded_def Let_def split: if_splits)

lemma drop_rounded:
  assumes r: "rounding rnd" and x0: "rnd x0 = x0" and y0: "rnd y0 = y0"
    and g: "0 < g" and y: "0 < y0" and n: "0 \<le> npts"
  shows "\<exists>t. linspace_rounded rnd 0 (tfinal_rounded rnd 0 g y0) npts = Inr t \<and>
             length t = nat npts \<and>
             trajectory_rounded rnd x0 y0 0 theta g npts =
               Inr (Points (map (\<lambda>ti. x0) t)
                           (map (\<lambda>ti. rnd (y0 - rnd (rnd (0.5 * g) * rnd (ti * ti)))) t))"
proof -
  from r have mono: "\<And>a b. a \<le> b \<Longrightarrow> rnd a \<le> rnd b" and z: "rnd 0 = 0"
    by (simp_all add: rounding_def)
  have pos: "0 \<le> rnd a" if "0 \<le> a" for a using mono [OF that] z by simp
  have "0 \<le> rnd (rnd (2 * y0) / g)" using g y by (intro pos divide_nonneg_pos) simp_all
  then have rad: "\<not> rnd (0 + rnd (rnd (2 * y0) / g)) < 0"
    using pos [of "rnd (rnd (2 * y0) / g)"] by simp
  from linspace_rounded_ok [OF n] obtain t
    where t: "linspace_rounded rnd 0 (tfinal_rounded rnd 0 g y0) npts = Inr t" "length t = nat npts"
    by blast
  with g rad show ?thesis
    by (simp add: trajectory_rounded_def z x0 y0)
qed

lemma drop_rounded_below:
  assumes r: "rounding rnd" and y0: "rnd y0 = y0" and g: "0 < g"
  shows "rnd (y0 - rnd (rnd (0.5 * g) * rnd (ti * ti))) \<le> y0"
proof -
  from r have mono: "\<And>a b. a \<le> b \<Longrightarrow> rnd a \<le> rnd b" and z: "rnd 0 = 0"
    by (simp_all add: rounding_def)
  have pos: "0 \<le> rnd a" if "0 \<le> a" for a using mono [OF that] z by simp
  have "0 \<le> rnd (0.5 * g)" using g by (intro pos) simp
  moreover have "0 \<le> rnd (ti * ti)" by (intro pos) simp
  ultimately have "0 \<le> rnd (0.5 * g) * rnd (ti * ti)" by (rule mult_nonneg_nonneg)
  then have "0 \<le> rnd (rnd (0.5 * g) * rnd (ti * ti))" by (rule pos)
  then have "y0 - rnd (rnd (0.5 * g) * rnd (ti * ti)) \<le> y0" by simp
  from mono [OF this] y0 show ?thesis by simp
qed

lemma g_double: "binary64 9.8 = 5516909543528858 / 2 ^ 49"
  using binary64_eqI [of 3 "9.8" 5516909543528858] by simp

lemma five_double: "binary64 5 = 5"
  using binary64_eqI [of 2 5 "5 * 2 ^ 50"] by simp

lemma x0_double: "binary64 12.5 = 12.5"
  using binary64_eqI [of 3 "12.5" "25 * 2 ^ 48"] by simp

lemma y0_double: "binary64 2.5 = 2.5"
  using binary64_eqI [of 1 "2.5" "5 * 2 ^ 50"] by simp

lemma half_g_double:
  "binary64 (0.5 * (5516909543528858 / 2 ^ 49)) = 5516909543528858 / 2 ^ 50"
  using binary64_eqI [of 2 "0.5 * (5516909543528858 / 2 ^ 49)" 5516909543528858] by simp

lemma a_double:
  "binary64 (5 / (5516909543528858 / 2 ^ 49)) = 4595509823847445 / 2 ^ 53"
  using binary64_eqI [of "- 1" "5 / (5516909543528858 / 2 ^ 49)" 4595509823847445] by simp

lemma a_exact: "binary64 (4595509823847445 / 2 ^ 53) = 4595509823847445 / 2 ^ 53"
  using binary64_eqI [of "- 1" "4595509823847445 / 2 ^ 53" 4595509823847445] by simp

lemma s_exact: "binary64 (6433713753386423 / 2 ^ 53) = 6433713753386423 / 2 ^ 53"
  using binary64_eqI [of "- 1" "6433713753386423 / 2 ^ 53" 6433713753386423] by simp

lemma p_double:
  "binary64 (6433713753386423 / 2 ^ 53 * (6433713753386423 / 2 ^ 53)) = 4595509823847445 / 2 ^ 53"
  using binary64_eqI [of "- 1" "6433713753386423 / 2 ^ 53 * (6433713753386423 / 2 ^ 53)"
      4595509823847445] by simp

lemma q_double:
  "binary64 (5516909543528858 / 2 ^ 50 * (4595509823847445 / 2 ^ 53)) = 5629499534213121 / 2 ^ 51"
  using binary64_eqI [of 1 "5516909543528858 / 2 ^ 50 * (4595509823847445 / 2 ^ 53)"
      5629499534213121] by simp

lemma y_double: "binary64 (2.5 - 5629499534213121 / 2 ^ 51) = - (1 / 2 ^ 51)"
  using binary64_eqI [of "- 51" "2.5 - 5629499534213121 / 2 ^ 51" "- (2 ^ 52)"] by simp

lemma near_53:
  fixes S :: real
  assumes "(of_int m - 1 / 2) / 2 ^ 53 < S" and "S < (of_int m + 1 / 2) / 2 ^ 53"
  shows "\<bar>S / 2 powi (- 1 - 52) - of_int m\<bar> < 1 / 2"
proof -
  have e: "S / 2 powi (- 1 - 52) = S * 2 ^ 53" by (simp add: power_int_minus field_simps)
  from assms(1) have "of_int m - 1 / 2 < S * 2 ^ 53" by (simp add: pos_divide_less_eq)
  moreover from assms(2) have "S * 2 ^ 53 < of_int m + 1 / 2" by (simp add: pos_less_divide_eq)
  ultimately show ?thesis unfolding e by linarith
qed

lemma s_double:
  "binary64 (sqrt (4595509823847445 / 2 ^ 53)) = 6433713753386423 / 2 ^ 53"
proof -
  let ?a = "4595509823847445 / 2 ^ 53 :: real"
  have lo: "(of_int 6433713753386423 - 1 / 2) / 2 ^ 53 < sqrt ?a"
    by (rule real_less_rsqrt) (simp add: power2_eq_square)
  have hi: "sqrt ?a < (of_int 6433713753386423 + 1 / 2) / 2 ^ 53"
    by (rule real_less_lsqrt) (simp_all add: power2_eq_square)
  from lo have pos: "0 < sqrt ?a" by (rule less_trans [rotated]) simp
  have 1: "2 powi (- 1) \<le> \<bar>sqrt ?a\<bar>" using lo pos by simp
  have 2: "\<bar>sqrt ?a\<bar> < 2 powi (- 1 + 1)" using hi pos by simp
  note 3 = near_53 [OF lo hi]
  from binary64_eqI [OF 1 2 _ 3] show ?thesis by simp
qed

lemma rounding_binary64: "rounding binary64"
  by (simp add: rounding_def binary64_mono binary64_zero)

lemma scan_result:
  assumes len: "length x = length y"
  shows "(case endTrajectoryAtIntersection x y ob of
            Inl e \<Rightarrow> Inl e
          | Inr (x', y') \<Rightarrow>
              (case firstInBox x' y' tb of Inl e \<Rightarrow> Inl e | Inr j \<Rightarrow> Inr (0 \<le> j)))
         = Inr (\<exists>p\<in>set (takeWhile (\<lambda>p. \<not> inside ob (fst p) (snd p)) (zip x y)).
                  inside tb (fst p) (snd p))"
proof -
  from endTrajectory_takeWhile [OF len, of ob] obtain x' y'
    where e: "endTrajectoryAtIntersection x y ob = Inr (x', y')"
      and len': "length x' = length y'"
      and z: "takeWhile (\<lambda>p. \<not> inside ob (fst p) (snd p)) (zip x y) = zip x' y'"
    by blast
  from firstInBox_sign [OF len', of tb] obtain j
    where f: "firstInBox x' y' tb = Inr j"
      and s: "0 \<le> j \<longleftrightarrow> (\<exists>k<length x'. inside tb (x' ! k) (y' ! k))"
    by blast
  have "(\<exists>k<length x'. inside tb (x' ! k) (y' ! k)) \<longleftrightarrow>
        (\<exists>p\<in>set (zip x' y'). inside tb (fst p) (snd p))"
    using len' by (auto simp: set_zip)
  with s z have "0 \<le> j \<longleftrightarrow>
      (\<exists>p\<in>set (takeWhile (\<lambda>p. \<not> inside ob (fst p) (snd p)) (zip x y)). inside tb (fst p) (snd p))"
    by simp
  with e f show ?thesis by simp
qed

lemma tankShot_rounded_Points:
  assumes "trajectory_rounded rnd x0 y0 v theta g 10000 = Inr (Points x y)"
    and "length x = length y"
  shows "tankShot_rounded rnd tb ob x0 y0 v theta g =
           Inr (\<exists>p\<in>set (takeWhile (\<lambda>p. \<not> inside ob (fst p) (snd p)) (zip x y)).
                  inside tb (fst p) (snd p))"
  using assms(1) scan_result [OF assms(2), where ob = ob and tb = tb]
  by (simp add: tankShot_rounded_def)

lemma drop_rounded_miss:
  assumes r: "rounding rnd" and x0: "rnd x0 = x0" and y0: "rnd y0 = y0"
    and g: "0 < g" and y: "0 < y0"
    and clear: "\<forall>py\<le>y0. \<not> inside tb x0 py"
  shows "tankShot_rounded rnd tb ob x0 y0 0 theta g = Inr False"
proof -
  let ?f = "\<lambda>ti. rnd (y0 - rnd (rnd (0.5 * g) * rnd (ti * ti)))"
  from drop_rounded [OF r x0 y0 g y, of 10000 theta] obtain t
    where tr: "trajectory_rounded rnd x0 y0 0 theta g 10000 =
                 Inr (Points (map (\<lambda>ti. x0) t) (map ?f t))"
    by auto
  have "\<not> (\<exists>p\<in>set (takeWhile (\<lambda>p. \<not> inside ob (fst p) (snd p))
                (zip (map (\<lambda>ti. x0) t) (map ?f t))). inside tb (fst p) (snd p))"
  proof
    assume "\<exists>p\<in>set (takeWhile (\<lambda>p. \<not> inside ob (fst p) (snd p))
                (zip (map (\<lambda>ti. x0) t) (map ?f t))). inside tb (fst p) (snd p)"
    then obtain p where "p \<in> set (zip (map (\<lambda>ti. x0) t) (map ?f t))"
      and ins: "inside tb (fst p) (snd p)"
      by (auto dest: set_takeWhileD)
    then obtain ti where "p = (x0, ?f ti)" by (auto simp: set_zip)
    with ins have "inside tb x0 (?f ti)" by simp
    moreover have "?f ti \<le> y0" using r y0 g by (rule drop_rounded_below)
    ultimately show False using clear by blast
  qed
  with tankShot_rounded_Points [OF tr, of tb ob] show ?thesis by simp
qed

lemma zip_maps: "zip (map a t) (map b t) = map (\<lambda>ti. (a ti, b ti)) t"
  by (induction t) simp_all

lemma zip_maps_member: "ti \<in> set t \<Longrightarrow> (a ti, b ti) \<in> set (zip (map a t) (map b t))"
  by (auto simp: zip_maps)

lemma two_y0: "(2::real) * 2.5 = 5"
  by simp

lemma tfinal_double:
  "tfinal_rounded binary64 0 (binary64 9.8) 2.5 = 6433713753386423 / 2 ^ 53"
  unfolding tfinal_rounded_def
  by (simp only: div_0 binary64_zero mult_zero_left add_0_left two_y0 five_double g_double
      a_double a_exact s_double s_exact)

lemma last_height_double:
  "binary64 (2.5 - binary64 (binary64 (0.5 * binary64 9.8) *
      binary64 (6433713753386423 / 2 ^ 53 * (6433713753386423 / 2 ^ 53)))) = - (1 / 2 ^ 51)"
  by (simp only: g_double half_g_double p_double q_double y_double)

lemma g_double_pos: "0 < binary64 9.8"
  unfolding g_double by simp

lemma top_double: "- (1 / 2 ^ 51) \<le> binary64 (- (1 / 10 ^ 16)) \<and> binary64 (- (1 / 10 ^ 16)) < 0"
proof -
  have a: "binary64 (- (1 / 2 ^ 51)) = - (1 / 2 ^ 51)"
    using binary64_eqI [of "- 51" "- (1 / 2 ^ 51)" "- (2 ^ 52)"] by simp
  have b: "binary64 (- (1 / 2 ^ 54)) = - (1 / 2 ^ 54)"
    using binary64_eqI [of "- 54" "- (1 / 2 ^ 54)" "- (2 ^ 52)"] by simp
  have "binary64 (- (1 / 2 ^ 51)) \<le> binary64 (- (1 / 10 ^ 16))"
    by (rule binary64_mono) simp
  moreover have "binary64 (- (1 / 10 ^ 16)) \<le> binary64 (- (1 / 2 ^ 54))"
    by (rule binary64_mono) simp
  ultimately show ?thesis unfolding a b by simp
qed

lemma linspace_nth:
  "2 \<le> n \<Longrightarrow> linspace a b n = Inr t \<Longrightarrow> i < nat n
     \<Longrightarrow> t ! i = a + real i * ((b - a) / real (nat n - 1))"
  by (auto simp: linspace_def split: if_splits)

lemma linspace_rounded_first:
  assumes "rounding rnd" and "0 < n" and "linspace_rounded rnd 0 b n = Inr t"
  shows "t ! 0 = 0"
proof -
  from assms(1) have z: "rnd 0 = 0" by (simp add: rounding_def)
  show ?thesis
  proof (cases "n = 1")
    case True
    with assms(3) z show ?thesis by (auto simp: linspace_rounded_def)
  next
    case False
    with assms(2) have m: "0 < nat n - 1" by auto
    then have "[0..<nat n - 1] = 0 # [1..<nat n - 1]" by (simp add: upt_conv_Cons)
    with assms(2,3) False z show ?thesis
      by (auto simp: linspace_rounded_def Let_def)
  qed
qed

lemma tfinal_rounded_drop:
  "rounding rnd \<Longrightarrow>
     tfinal_rounded rnd 0 g y0 = rnd (rnd (sqrt (rnd (rnd (rnd (2 * y0) / g)))))"
  by (simp add: tfinal_rounded_def rounding_def)

lemma tankShot_rounded_exact:
  "tankShot_rounded (\<lambda>a. a) tb ob x0 y0 v theta g = tankShot tb ob x0 y0 v theta g"
  by (simp add: tankShot_rounded_def tankShot_def trajectory_rounded_exact)

lemma drop_exact_samples:
  assumes g: "0 < g" and y0: "0 < y0" and n: "2 \<le> npts"
    and tr: "trajectory x0 y0 0 theta g npts = Inr (Points x y)" and k: "k < nat npts"
  shows "x ! k = x0 \<and>
         y ! k = y0 - g / 2 * (real k * sqrt (2 * y0 / g) / real (nat npts - 1))\<^sup>2"
proof -
  let ?tf = "tfinal (0 * sin (deg2rad theta)) g y0"
  from trajectory_PointsD [OF tr] obtain t
    where t: "linspace 0 ?tf npts = Inr t" "length t = nat npts"
      and x: "x = map (\<lambda>ti. x0 + 0 * cos (deg2rad theta) * ti) t"
      and y: "y = map (\<lambda>ti. y0 + 0 * sin (deg2rad theta) * ti - 0.5 * g * ti\<^sup>2) t"
    by blast
  have tf: "tfinal 0 g y0 = sqrt (2 * y0 / g)" by (simp add: tfinal_def)
  from linspace_nth [OF n t(1) k]
  have "t ! k = real k * sqrt (2 * y0 / g) / real (nat npts - 1)" by (simp add: tf)
  with k t(2) show ?thesis by (simp add: x y)
qed

section \<open>The properties of the specification\<close>

text \<open>
  C3. On a point sequence (the arrays \<open>x\<close> and \<open>y\<close> have one length) and any box,
  \<open>firstInBox\<close> returns, without an error, either the lowest index whose point
  lies in the box, bounds included, or -1 when no point of the sequence lies in the box.
\<close>

theorem firstInBox_lowest_index:
  assumes "length x = length y"
  shows "\<exists>j. firstInBox x y box = Inr j \<and>
           ((j = - 1 \<and> (\<forall>k<length x. \<not> inside box (x ! k) (y ! k))) \<or>
            (0 \<le> j \<and> nat j < length x \<and> inside box (x ! nat j) (y ! nat j) \<and>
             (\<forall>k<nat j. \<not> inside box (x ! k) (y ! k))))"
proof (cases "\<exists>k<length x. inside box (x ! k) (y ! k)")
  case False
  then have "firstInBox_loop x y box 0 = Inr (- 1)"
    using assms by (intro firstInBox_loop_none) auto
  with False show ?thesis by (simp add: firstInBox_def)
next
  case True
  define j where "j = (LEAST k. k < length x \<and> inside box (x ! k) (y ! k))"
  from True have jP: "j < length x \<and> inside box (x ! j) (y ! j)"
    unfolding j_def by (metis (mono_tags, lifting) LeastI)
  have jmin: "\<forall>k. 0 \<le> k \<and> k < j \<longrightarrow> \<not> inside box (x ! k) (y ! k)"
  proof (intro allI impI)
    fix k assume k: "0 \<le> k \<and> k < j"
    show "\<not> inside box (x ! k) (y ! k)"
    proof
      assume "inside box (x ! k) (y ! k)"
      with k jP have "k < length x \<and> inside box (x ! k) (y ! k)" by simp
      then have "j \<le> k" unfolding j_def by (rule Least_le)
      with k show False by simp
    qed
  qed
  have "firstInBox_loop x y box 0 = Inr (int j)"
    using assms jP jmin by (intro firstInBox_loop_found) auto
  with jP jmin show ?thesis by (simp add: firstInBox_def)
qed

theorem firstInBox_lowest_index_witness:
  "length [0, 5, 6 :: real] = length [0, 5, 6 :: real] \<and>
   firstInBox [0, 5, 6] [0, 5, 6] (4, 7, 4, 7) = Inr 1 \<and>
   firstInBox [0, 5, 6] [0, 5, 6] (1, 2, 1, 2) = Inr (- 1)"
  using firstInBox_lowest_index [of "[0, 5, 6]" "[0, 5, 6]" "(4, 7, 4, 7)"]
  by (simp add: firstInBox_def firstInBox_loop.simps)

text \<open>
  C4. When no point of the sequence lies in the box, \<open>endTrajectoryAtIntersection\<close>
  returns its input unchanged.
\<close>

theorem endTrajectoryAtIntersection_identity:
  assumes "length x = length y"
    and "\<forall>k<length x. \<not> inside box (x ! k) (y ! k)"
  shows "endTrajectoryAtIntersection x y box = Inr (x, y)"
proof -
  have "firstInBox_loop x y box 0 = Inr (- 1)"
    using assms by (intro firstInBox_loop_none) auto
  then show ?thesis by (simp add: endTrajectoryAtIntersection_def firstInBox_def)
qed

theorem endTrajectoryAtIntersection_identity_witness:
  "length [0, 5, 6 :: real] = length [1, 2, 3 :: real] \<and>
   \<not> inside (7, 9, 0, 9) 0 1 \<and> \<not> inside (7, 9, 0, 9) 5 2 \<and> \<not> inside (7, 9, 0, 9) 6 3 \<and>
   endTrajectoryAtIntersection [0, 5, 6] [1, 2, 3] (7, 9, 0, 9) = Inr ([0, 5, 6], [1, 2, 3])"
proof -
  have "\<forall>k<length [0, 5, 6 :: real]. \<not> inside (7, 9, 0, 9) ([0, 5, 6] ! k) ([1, 2, 3] ! k)"
    by (simp add: inside_def less_Suc_eq all_conj_distrib)
  then show ?thesis
    using endTrajectoryAtIntersection_identity [of "[0, 5, 6]" "[1, 2, 3]" "(7, 9, 0, 9)"]
    by (simp add: inside_def)
qed

text \<open>
  C5. When the sequence meets the box, \<open>endTrajectoryAtIntersection\<close> returns the
  points with an index strictly below the first index in the box: the point in
  the box is not part of the result.
\<close>

theorem endTrajectoryAtIntersection_prefix:
  assumes "length x = length y"
    and "j < length x" and "inside box (x ! j) (y ! j)"
    and "\<forall>k<j. \<not> inside box (x ! k) (y ! k)"
  shows "endTrajectoryAtIntersection x y box = Inr (take j x, take j y)"
proof -
  have "firstInBox_loop x y box 0 = Inr (int j)"
    using assms by (intro firstInBox_loop_found) auto
  then show ?thesis by (simp add: endTrajectoryAtIntersection_def firstInBox_def)
qed

theorem endTrajectoryAtIntersection_prefix_witness:
  "length [0, 5, 6 :: real] = length [1, 2, 3 :: real] \<and> (1 :: nat) < length [0, 5, 6 :: real] \<and>
   inside (4, 9, 0, 9) 5 2 \<and> \<not> inside (4, 9, 0, 9) 0 1 \<and>
   endTrajectoryAtIntersection [0, 5, 6] [1, 2, 3] (4, 9, 0, 9) = Inr ([0], [1])"
proof -
  have "\<forall>k<(1::nat). \<not> inside (4, 9, 0, 9) ([0, 5, 6] ! k) ([1, 2, 3] ! k)"
    by (simp add: inside_def)
  then show ?thesis
    using endTrajectoryAtIntersection_prefix [of "[0, 5, 6]" "[1, 2, 3]" 1 "(4, 9, 0, 9)"]
    by (simp add: inside_def)
qed

text \<open>
  C6. For \<open>g > 0\<close>, \<open>y0 > 0\<close> and at least two samples (the program takes 10000, the
  default is 1000), \<open>trajectory\<close> returns arrays of \<open>npts\<close> points; the flight time
  \<open>tfinal = vy/g + sqrt((vy/g)\<^sup>2 + 2 y0/g)\<close> with \<open>vy = v sin(theta)\<close> is the one solution of
  \<open>0.5 g t\<^sup>2 - vy t - y0 = 0\<close> that is not negative; the last sample is taken at \<open>tfinal\<close>
  and its height is 0 (exactly, over the reals).
\<close>

theorem trajectory_lands:
  assumes "0 < g" and "0 < y0" and "2 \<le> npts"
  shows "0 \<le> tfinal (v * sin (deg2rad theta)) g y0 \<and>
         0.5 * g * (tfinal (v * sin (deg2rad theta)) g y0)\<^sup>2
           - v * sin (deg2rad theta) * tfinal (v * sin (deg2rad theta)) g y0 - y0 = 0 \<and>
         (\<forall>t. 0 \<le> t \<and> 0.5 * g * t\<^sup>2 - v * sin (deg2rad theta) * t - y0 = 0
            \<longrightarrow> t = tfinal (v * sin (deg2rad theta)) g y0) \<and>
         (\<exists>x y. trajectory x0 y0 v theta g npts = Inr (Points x y) \<and>
                length x = nat npts \<and> length y = nat npts \<and>
                last x = x0 + v * cos (deg2rad theta) * tfinal (v * sin (deg2rad theta)) g y0 \<and>
                last y = 0)"
proof -
  let ?vy = "v * sin (deg2rad theta)"
  let ?tf = "tfinal ?vy g y0"
  from assms have g: "g \<noteq> 0" and rad: "0 \<le> (?vy / g)\<^sup>2 + 2 * y0 / g" and n: "0 \<le> npts"
    by simp_all
  have root: "0.5 * g * ?tf\<^sup>2 - ?vy * ?tf - y0 = 0" using g rad by (rule tfinal_root)
  have nonneg: "0 \<le> ?tf" using assms(1,2) by (intro tfinal_nonneg) simp_all
  have only: "\<forall>t. 0 \<le> t \<and> 0.5 * g * t\<^sup>2 - ?vy * t - y0 = 0 \<longrightarrow> t = ?tf"
    using tfinal_unique [OF assms(1,2)] by blast
  from trajectory_PointsI [OF g rad n, of x0] obtain t
    where t: "linspace 0 ?tf npts = Inr t" "length t = nat npts"
      and tr: "trajectory x0 y0 v theta g npts =
                Inr (Points (map (\<lambda>ti. x0 + v * cos (deg2rad theta) * ti) t)
                            (map (\<lambda>ti. y0 + ?vy * ti - 0.5 * g * ti\<^sup>2) t))"
    by blast
  from t(2) assms(3) have ne: "t \<noteq> []" by auto
  have lt: "last t = ?tf" using assms(3) t(1) by (rule linspace_last)
  have "last (map (\<lambda>ti. y0 + ?vy * ti - 0.5 * g * ti\<^sup>2) t) = y0 + ?vy * ?tf - 0.5 * g * ?tf\<^sup>2"
    using ne lt by (simp add: last_map)
  also have "\<dots> = 0" using root by simp
  finally have ly: "last (map (\<lambda>ti. y0 + ?vy * ti - 0.5 * g * ti\<^sup>2) t) = 0" .
  have lx: "last (map (\<lambda>ti. x0 + v * cos (deg2rad theta) * ti) t) = x0 + v * cos (deg2rad theta) * ?tf"
    using ne lt by (simp add: last_map)
  from tr t(2) lx ly have "\<exists>x y. trajectory x0 y0 v theta g npts = Inr (Points x y) \<and>
                length x = nat npts \<and> length y = nat npts \<and>
                last x = x0 + v * cos (deg2rad theta) * ?tf \<and> last y = 0"
    by auto
  with root nonneg only show ?thesis by blast
qed

lemma sqrt_25: "sqrt 25 = 5"
proof -
  have "sqrt (5\<^sup>2) = 5" by simp
  then show ?thesis by simp
qed

lemma deg2rad_90: "deg2rad 90 = pi / 2" by (simp add: deg2rad_def)

lemma tfinal_3_1_8: "tfinal 3 1 8 = 8"
  by (simp add: tfinal_def sqrt_25)

lemma linspace_0_8_3: "linspace 0 8 3 = Inr [0, 4, 8]"
  by (simp add: linspace_def eval_nat_numeral)


theorem trajectory_lands_witness:
  "(0::real) < 1 \<and> (0::real) < 8 \<and> (2::int) \<le> 3 \<and>
   tfinal (3 * sin (deg2rad 90)) 1 8 = 8 \<and>
   trajectory 0 8 3 90 1 3 = Inr (Points [0, 0, 0] [8, 12, 0]) \<and>
   last [8, 12, 0 :: real] = 0"
  using trajectory_lands [of 1 8 3 3 90 0]
  by (simp add: trajectory_def tfinal_3_1_8 deg2rad_90 linspace_0_8_3)

text \<open>
  C7, as the code has it. With \<open>v = 0\<close>, \<open>y0 > 0\<close> and \<open>g > 0\<close>, for any angle, the
  trajectory is computed without an error. In exact arithmetic the flight time is
  \<open>sqrt(2 y0/g)\<close> and sample \<open>k\<close> of \<open>npts\<close> is the point \<open>(x0, y0 - g/2 t\<^sub>k\<^sup>2)\<close> at the time
  \<open>t\<^sub>k = k sqrt(2 y0/g)/(npts - 1)\<close>. In rounded arithmetic, for every rounding function that
  keeps the order, 0, \<open>x0\<close> and \<open>y0\<close>: the flight time is the rounded \<open>sqrt(2 y0/g)\<close>, the
  samples are taken at the times of \<^verbatim>\<open>np.linspace\<close> from 0 to the flight time, every sample
  has \<open>x = x0\<close> and the rounded height \<open>y0 - (0.5 g) t\<^sup>2\<close>, which is \<open>y0\<close> at the time 0 and
  never above \<open>y0\<close>, and the shot is a miss for every target box that holds no point
  \<open>(x0, py)\<close> with \<open>py \<le> y0\<close>. A height below 0 is not excluded: in double precision the
  last sample of the drop from \<open>(12.5, 2.5)\<close> under \<open>g = 9.8\<close> has the height \<open>-2\<^sup>-\<^sup>5\<^sup>1\<close>, and
  the shot hits a target box that lies below the segment from \<open>(12.5, 0)\<close> to \<open>(12.5, 2.5)\<close>.
\<close>

theorem vertical_drop:
  assumes "0 < g" and "0 < y0"
  shows "tfinal (0 * sin (deg2rad theta)) g y0 = sqrt (2 * y0 / g) \<and>
         (\<forall>npts\<ge>2. \<exists>x y. trajectory x0 y0 0 theta g npts = Inr (Points x y) \<and>
            length x = nat npts \<and> length y = nat npts \<and>
            (\<forall>k<nat npts. x ! k = x0 \<and>
               y ! k = y0 - g / 2 * (real k * sqrt (2 * y0 / g) / real (nat npts - 1))\<^sup>2)) \<and>
         (\<forall>rnd. rounding rnd \<and> rnd x0 = x0 \<and> rnd y0 = y0 \<longrightarrow>
            tfinal_rounded rnd 0 g y0 = rnd (rnd (sqrt (rnd (rnd (rnd (2 * y0) / g))))) \<and>
            (\<forall>npts\<ge>0. \<exists>t.
               linspace_rounded rnd 0 (tfinal_rounded rnd 0 g y0) npts = Inr t \<and>
               length t = nat npts \<and>
               (0 < npts \<longrightarrow> t ! 0 = 0) \<and>
               (2 \<le> npts \<longrightarrow> last t = tfinal_rounded rnd 0 g y0) \<and>
               trajectory_rounded rnd x0 y0 0 theta g npts =
                 Inr (Points (map (\<lambda>ti. x0) t)
                             (map (\<lambda>ti. rnd (y0 - rnd (rnd (0.5 * g) * rnd (ti * ti)))) t))) \<and>
            (\<forall>ti. rnd (y0 - rnd (rnd (0.5 * g) * rnd (ti * ti))) \<le> y0) \<and>
            rnd (y0 - rnd (rnd (0.5 * g) * rnd (0 * 0))) = y0 \<and>
            (\<forall>tb ob. (\<forall>py\<le>y0. \<not> inside tb x0 py) \<longrightarrow>
               tankShot_rounded rnd tb ob x0 y0 0 theta g = Inr False)) \<and>
         (\<forall>v npts. trajectory_rounded (\<lambda>a. a) x0 y0 v theta g npts
                     = trajectory x0 y0 v theta g npts) \<and>
         (\<forall>tb ob v. tankShot_rounded (\<lambda>a. a) tb ob x0 y0 v theta g
                     = tankShot tb ob x0 y0 v theta g)"
proof (intro conjI allI impI)
  show "tfinal (0 * sin (deg2rad theta)) g y0 = sqrt (2 * y0 / g)" by (simp add: tfinal_def)
next
  fix npts :: int
  assume n: "2 \<le> npts"
  obtain x y where tr: "trajectory x0 y0 0 theta g npts = Inr (Points x y)"
    using trajectory_exists [of g y0 npts x0 0 theta] assms n by auto
  from trajectory_lengths [OF tr] drop_exact_samples [OF assms n tr] tr
  show "\<exists>x y. trajectory x0 y0 0 theta g npts = Inr (Points x y) \<and>
            length x = nat npts \<and> length y = nat npts \<and>
            (\<forall>k<nat npts. x ! k = x0 \<and>
               y ! k = y0 - g / 2 * (real k * sqrt (2 * y0 / g) / real (nat npts - 1))\<^sup>2)"
    by blast
next
  fix rnd :: "real \<Rightarrow> real"
  assume a: "rounding rnd \<and> rnd x0 = x0 \<and> rnd y0 = y0"
  then have r: "rounding rnd" and x0: "rnd x0 = x0" and y0: "rnd y0 = y0" by simp_all
  from r have z: "rnd 0 = 0" by (simp add: rounding_def)
  show "tfinal_rounded rnd 0 g y0 = rnd (rnd (sqrt (rnd (rnd (rnd (2 * y0) / g)))))"
    using r by (rule tfinal_rounded_drop)
  show "rnd (y0 - rnd (rnd (0.5 * g) * rnd (0 * 0))) = y0" by (simp add: z y0)
  show "rnd (y0 - rnd (rnd (0.5 * g) * rnd (ti * ti))) \<le> y0" for ti
    using r y0 assms(1) by (rule drop_rounded_below)
  show "tankShot_rounded rnd tb ob x0 y0 0 theta g = Inr False"
    if "\<forall>py\<le>y0. \<not> inside tb x0 py" for tb ob
    using r x0 y0 assms that by (rule drop_rounded_miss)
  show "\<exists>t. linspace_rounded rnd 0 (tfinal_rounded rnd 0 g y0) npts = Inr t \<and>
               length t = nat npts \<and>
               (0 < npts \<longrightarrow> t ! 0 = 0) \<and>
               (2 \<le> npts \<longrightarrow> last t = tfinal_rounded rnd 0 g y0) \<and>
               trajectory_rounded rnd x0 y0 0 theta g npts =
                 Inr (Points (map (\<lambda>ti. x0) t)
                             (map (\<lambda>ti. rnd (y0 - rnd (rnd (0.5 * g) * rnd (ti * ti)))) t))"
    if n: "0 \<le> npts" for npts
  proof -
    from drop_rounded [OF r x0 y0 assms n, of theta] obtain t
      where t: "linspace_rounded rnd 0 (tfinal_rounded rnd 0 g y0) npts = Inr t"
        and len: "length t = nat npts"
        and tr: "trajectory_rounded rnd x0 y0 0 theta g npts =
                 Inr (Points (map (\<lambda>ti. x0) t)
                             (map (\<lambda>ti. rnd (y0 - rnd (rnd (0.5 * g) * rnd (ti * ti)))) t))"
      by blast
    have "0 < npts \<longrightarrow> t ! 0 = 0" using linspace_rounded_first [OF r _ t] by blast
    moreover have "2 \<le> npts \<longrightarrow> last t = tfinal_rounded rnd 0 g y0"
      using linspace_rounded_last [OF _ t] by blast
    ultimately show ?thesis using t len tr by blast
  qed
next
  fix v npts
  show "trajectory_rounded (\<lambda>a. a) x0 y0 v theta g npts = trajectory x0 y0 v theta g npts"
    by (rule trajectory_rounded_exact)
next
  fix tb ob v
  show "tankShot_rounded (\<lambda>a. a) tb ob x0 y0 v theta g = tankShot tb ob x0 y0 v theta g"
    by (rule tankShot_rounded_exact)
qed

theorem vertical_drop_witness:
  "rounding binary64 \<and> binary64 12.5 = 12.5 \<and> binary64 2.5 = 2.5 \<and>
   0 < binary64 9.8 \<and> (0::real) < 2.5 \<and>
   tfinal (0 * sin (deg2rad 45)) (binary64 9.8) 2.5 = sqrt (2 * 2.5 / binary64 9.8) \<and>
   tankShot_rounded binary64 (90, 95, 0, 5) (40, 60, 0, 50) 12.5 2.5 0 45 (binary64 9.8)
     = Inr False \<and>
   tankShot_rounded binary64 (10, 15, 3, 4) (40, 60, 0, 50) 12.5 2.5 0 45 (binary64 9.8)
     = Inr False"
proof -
  have y: "(0::real) < 2.5" by simp
  note T = vertical_drop [OF g_double_pos y, of 45 "12.5"]
  note R = T [THEN conjunct2, THEN conjunct2, THEN conjunct1, rule_format, of binary64,
      OF conjI [OF rounding_binary64 conjI [OF x0_double y0_double]]]
  note miss = R [THEN conjunct2, THEN conjunct2, THEN conjunct2, THEN conjunct2, rule_format]
  have a: "tankShot_rounded binary64 (90, 95, 0, 5) (40, 60, 0, 50) 12.5 2.5 0 45 (binary64 9.8)
     = Inr False"
    by (rule miss) (simp add: inside_def)
  have b: "tankShot_rounded binary64 (10, 15, 3, 4) (40, 60, 0, 50) 12.5 2.5 0 45 (binary64 9.8)
     = Inr False"
    by (rule miss) (simp add: inside_def)
  from T [THEN conjunct1] a b rounding_binary64 x0_double y0_double g_double_pos y
  show ?thesis by blast
qed

theorem vertical_drop_counterexample:
  "tankShot_rounded binary64 (10, 15, - 1, binary64 (- (1 / 10 ^ 16))) (40, 60, 0, 50)
     12.5 2.5 0 45 (binary64 9.8) = Inr True \<and>
   binary64 (- (1 / 10 ^ 16)) < 0 \<and> (0::real) < 2.5 \<and> 0 < binary64 9.8"
proof -
  let ?g = "binary64 9.8"
  let ?tb = "(10, 15, - 1, binary64 (- (1 / 10 ^ 16))) :: box"
  let ?ob = "(40, 60, 0, 50) :: box"
  let ?f = "\<lambda>ti. binary64 (2.5 - binary64 (binary64 (0.5 * ?g) * binary64 (ti * ti)))"
  let ?tf = "6433713753386423 / 2 ^ 53 :: real"
  from drop_rounded [OF rounding_binary64 x0_double y0_double g_double_pos, of 10000 45]
  obtain t where t: "linspace_rounded binary64 0 (tfinal_rounded binary64 0 ?g 2.5) 10000 = Inr t"
    and len: "length t = 10000"
    and tr: "trajectory_rounded binary64 12.5 2.5 0 45 ?g 10000 =
               Inr (Points (map (\<lambda>ti. 12.5 :: real) t) (map ?f t))"
    by auto
  have "(2::int) \<le> 10000" by simp
  from linspace_rounded_last [OF this t [unfolded tfinal_double]] have "last t = ?tf" .
  moreover from len have ne: "t \<noteq> []" by auto
  ultimately have "?tf \<in> set t" by (metis last_in_set)
  then have p: "(12.5 :: real, ?f ?tf) \<in> set (zip (map (\<lambda>ti. 12.5 :: real) t) (map ?f t))"
    by (rule zip_maps_member [of ?tf t "\<lambda>ti. 12.5" ?f])
  have all: "takeWhile (\<lambda>p. \<not> inside ?ob (fst p) (snd p)) (zip (map (\<lambda>ti. 12.5 :: real) t) (map ?f t))
      = zip (map (\<lambda>ti. 12.5 :: real) t) (map ?f t)"
    by (auto simp: takeWhile_eq_all_conv set_zip inside_def)
  have h: "?f ?tf = - (1 / 2 ^ 51)" by (rule last_height_double)
  have "inside ?tb 12.5 (?f ?tf)"
    unfolding h using top_double by (simp add: inside_def)
  with p have ex: "\<exists>p\<in>set (zip (map (\<lambda>ti. 12.5 :: real) t) (map ?f t)). inside ?tb (fst p) (snd p)"
    by force
  have lenxy: "length (map (\<lambda>ti. 12.5 :: real) t) = length (map ?f t)" by simp
  note T = tankShot_rounded_Points [OF tr lenxy, where tb = ?tb and ob = ?ob, unfolded all]
  have "tankShot_rounded binary64 ?tb ?ob 12.5 2.5 0 45 ?g = Inr True"
    unfolding T by (simp only: ex simp_thms)
  with top_double g_double_pos show ?thesis by simp
qed

text \<open>
  C10. The first point of a trajectory is the origin \<open>(x0, y0)\<close>. When the origin lies in
  the obstacle box, \<open>endTrajectoryAtIntersection\<close> returns the empty sequence and
  \<open>tankShot\<close> returns a miss, for every target box, velocity and angle.
\<close>

theorem shot_from_inside_obstacle:
  assumes "trajectory x0 y0 v theta g 10000 = Inr (Points x y)" and "inside ob x0 y0"
  shows "x ! 0 = x0 \<and> y ! 0 = y0 \<and> endTrajectoryAtIntersection x y ob = Inr ([], []) \<and>
         tankShot tb ob x0 y0 v theta g = Inr False"
proof -
  from trajectory_origin [OF assms(1)] have o: "x ! 0 = x0" "y ! 0 = y0" by simp_all
  from trajectory_lengths [OF assms(1)] have len: "length x = 10000" "length y = 10000" by simp_all
  have "firstInBox x y ob = Inr (int 0)"
    using len o assms(2) by (intro firstInBox_found) simp_all
  then have e: "endTrajectoryAtIntersection x y ob = Inr ([], [])"
    by (simp add: endTrajectoryAtIntersection_def)
  have "firstInBox [] [] tb = Inr (- 1)" by (intro firstInBox_none) simp_all
  with assms(1) e have "tankShot tb ob x0 y0 v theta g = Inr False"
    by (simp add: tankShot_def)
  with o e show ?thesis by simp
qed

theorem shot_from_inside_obstacle_witness:
  "inside (10, 60, 0, 50) 12.5 2.5 \<and>
   (\<exists>x y. trajectory 12.5 2.5 30 45 9.8 10000 = Inr (Points x y) \<and>
          endTrajectoryAtIntersection x y (10, 60, 0, 50) = Inr ([], [])) \<and>
   tankShot (90, 95, 0, 5) (10, 60, 0, 50) 12.5 2.5 30 45 9.8 = Inr False"
proof -
  obtain x y where tr: "trajectory 12.5 2.5 30 45 9.8 10000 = Inr (Points x y)"
    using trajectory_exists [of "9.8" "2.5" 10000 "12.5" 30 45] by auto
  have ins: "inside (10, 60, 0, 50) 12.5 2.5" by (simp add: inside_def)
  from shot_from_inside_obstacle [OF tr ins, of "(90, 95, 0, 5)"] tr ins show ?thesis by blast
qed

text \<open>
  C1. Whenever the shot has a trajectory \<open>(x, y)\<close>, \<open>tankShot\<close> returns a hit exactly
  when the points before the first point in the obstacle box (all points, when none is in
  it) include a point in the target box. In particular, when the trajectory has a point in
  the obstacle box at some index and no point in the target box up to that index, the
  result is a miss.
\<close>

theorem tankShot_hit_iff:
  assumes "trajectory x0 y0 v theta g 10000 = Inr (Points x y)"
  shows "tankShot tb ob x0 y0 v theta g =
           Inr (\<exists>p\<in>set (takeWhile (\<lambda>p. \<not> inside ob (fst p) (snd p)) (zip x y)).
                  inside tb (fst p) (snd p)) \<and>
         (\<forall>i<length x. inside ob (x ! i) (y ! i) \<and> (\<forall>k\<le>i. \<not> inside tb (x ! k) (y ! k))
            \<longrightarrow> tankShot tb ob x0 y0 v theta g = Inr False)"
proof (intro conjI allI impI)
  show "tankShot tb ob x0 y0 v theta g =
           Inr (\<exists>p\<in>set (takeWhile (\<lambda>p. \<not> inside ob (fst p) (snd p)) (zip x y)).
                  inside tb (fst p) (snd p))"
    using assms by (rule tankShot_Points)
next
  fix i
  assume "i < length x"
    and "inside ob (x ! i) (y ! i) \<and> (\<forall>k\<le>i. \<not> inside tb (x ! k) (y ! k))"
  then show "tankShot tb ob x0 y0 v theta g = Inr False"
    using assms by (intro tankShot_blocked [where i = i and x = x and y = y]) auto
qed

theorem tankShot_hit_iff_witness:
  "tankShot (10, 15, 0, 5) (40, 60, 0, 50) 12.5 2.5 30 45 9.8 = Inr True \<and>
   tankShot (90, 95, 0, 5) (10, 15, 0, 5) 12.5 2.5 30 45 9.8 = Inr False"
proof -
  obtain x y where tr: "trajectory 12.5 2.5 30 45 9.8 10000 = Inr (Points x y)"
    using trajectory_exists [of "9.8" "2.5" 10000 "12.5" 30 45] by auto
  from trajectory_origin [OF tr] have o: "x ! 0 = 12.5" "y ! 0 = 2.5" by simp_all
  from trajectory_lengths [OF tr] have len: "length x = 10000" "length y = 10000" by simp_all
  from len have "x \<noteq> []" "y \<noteq> []" by auto
  then have "x = x ! 0 # tl x" "y = y ! 0 # tl y" by (cases x, simp_all) (cases y, simp_all)
  with o have "zip x y = (12.5, 2.5) # zip (tl x) (tl y)"
    by (metis zip_Cons_Cons)
  then have "(12.5, 2.5) \<in> set (takeWhile (\<lambda>p. \<not> inside (40, 60, 0, 50) (fst p) (snd p)) (zip x y))"
    by (simp add: inside_def)
  moreover have "inside (10, 15, 0, 5) 12.5 2.5" by (simp add: inside_def)
  ultimately have hit: "\<exists>p\<in>set (takeWhile (\<lambda>p. \<not> inside (40, 60, 0, 50) (fst p) (snd p)) (zip x y)).
      inside (10, 15, 0, 5) (fst p) (snd p)"
    by force
  have first: "tankShot (10, 15, 0, 5) (40, 60, 0, 50) 12.5 2.5 30 45 9.8 = Inr True"
    using tankShot_hit_iff [OF tr, of "(10, 15, 0, 5)" "(40, 60, 0, 50)"] hit by simp
  have "inside (10, 15, 0, 5) (x ! 0) (y ! 0) \<and> (\<forall>k\<le>0. \<not> inside (90, 95, 0, 5) (x ! k) (y ! k))"
    using o by (simp add: inside_def)
  moreover have "0 < length x" using len by simp
  ultimately have second: "tankShot (90, 95, 0, 5) (10, 15, 0, 5) 12.5 2.5 30 45 9.8 = Inr False"
    using tankShot_hit_iff [OF tr, of "(90, 95, 0, 5)" "(10, 15, 0, 5)"] by blast
  from first second show ?thesis by simp
qed

text \<open>
  C2, as the code has it. No DomainError exists: neither gravity nor the boxes are checked.
  With \<open>g = 0\<close> the shot raises Python's ZeroDivisionError; with any other \<open>g\<close>, negative
  ones included, and with any boxes it returns a boolean. A box with left > right or
  bottom > top contains no point: as a target it is never hit, and as an obstacle it
  leaves the trajectory unchanged. The counterexample is a shot at a target box with
  left > right and bottom > top, and a shot under negative gravity: both return a miss.
\<close>

theorem tankShot_no_validation:
  "(g = 0 \<longrightarrow> tankShot tb ob x0 y0 v theta g = Inl ZeroDivisionError) \<and>
   (g \<noteq> 0 \<longrightarrow>
      (\<exists>hit. tankShot tb ob x0 y0 v theta g = Inr hit) \<and>
      (\<forall>l r b t. r < l \<or> t < b \<longrightarrow> tankShot (l, r, b, t) ob x0 y0 v theta g = Inr False)) \<and>
   (\<forall>l r b t x y. length x = length y \<and> (r < l \<or> t < b)
      \<longrightarrow> endTrajectoryAtIntersection x y (l, r, b, t) = Inr (x, y))"
proof (intro conjI impI allI)
  assume "g = 0"
  then show "tankShot tb ob x0 y0 v theta g = Inl ZeroDivisionError"
    by (simp add: tankShot_zero_gravity)
next
  assume "g \<noteq> 0"
  then show "\<exists>hit. tankShot tb ob x0 y0 v theta g = Inr hit" by (rule tankShot_returns)
next
  fix l r b t :: real
  assume "g \<noteq> 0" and "r < l \<or> t < b"
  then show "tankShot (l, r, b, t) ob x0 y0 v theta g = Inr False"
    by (rule tankShot_inverted_target)
next
  fix l r b t :: real and x y :: "real list"
  assume "length x = length y \<and> (r < l \<or> t < b)"
  then show "endTrajectoryAtIntersection x y (l, r, b, t) = Inr (x, y)"
    by (intro inverted_obstacle_identity) simp_all
qed

theorem tankShot_no_validation_witness:
  "tankShot (90, 95, 0, 5) (40, 60, 0, 50) 12.5 2.5 30 45 0 = Inl ZeroDivisionError \<and>
   (\<exists>hit. tankShot (90, 95, 0, 5) (60, 40, 50, 0) 12.5 2.5 30 45 9.8 = Inr hit) \<and>
   tankShot (95, 90, 0, 5) (40, 60, 0, 50) 12.5 2.5 30 45 9.8 = Inr False \<and>
   endTrajectoryAtIntersection [50] [10] (60, 40, 0, 50) = Inr ([50], [10])"
proof -
  have a: "tankShot (90, 95, 0, 5) (40, 60, 0, 50) 12.5 2.5 30 45 0 = Inl ZeroDivisionError"
    using tankShot_no_validation [of 0 "(90, 95, 0, 5)" "(40, 60, 0, 50)" "12.5" "2.5" 30 45]
    by simp
  have b: "\<exists>hit. tankShot (90, 95, 0, 5) (60, 40, 50, 0) 12.5 2.5 30 45 9.8 = Inr hit"
    using tankShot_no_validation [of "9.8" "(90, 95, 0, 5)" "(60, 40, 50, 0)" "12.5" "2.5" 30 45]
    by simp
  have c: "tankShot (95, 90, 0, 5) (40, 60, 0, 50) 12.5 2.5 30 45 9.8 = Inr False"
    using tankShot_no_validation [of "9.8" "(90, 95, 0, 5)" "(40, 60, 0, 50)" "12.5" "2.5" 30 45]
    by simp
  have d: "endTrajectoryAtIntersection [50] [10] (60, 40, 0, 50) = Inr ([50], [10])"
    using tankShot_no_validation [of "9.8" "(90, 95, 0, 5)" "(40, 60, 0, 50)" "12.5" "2.5" 30 45]
    by simp
  from a b c d show ?thesis by simp
qed

theorem no_domain_error_counterexample:
  "tankShot (95, 90, 5, 0) (40, 60, 0, 50) 12.5 2.5 30 45 9.8 = Inr False \<and>
   tankShot (90, 95, 0, 5) (40, 60, 0, 50) 12.5 2.5 0 45 (- 9.8) = Inr False"
proof -
  have "tankShot (95, 90, 5, 0) (40, 60, 0, 50) 12.5 2.5 30 45 9.8 = Inr False"
    by (rule tankShot_inverted_target) simp_all
  moreover have "trajectory 12.5 2.5 0 45 (- 9.8) 10000 = Inr (NanPoints 10000)"
    by (simp add: trajectory_def)
  then have "tankShot (90, 95, 0, 5) (40, 60, 0, 50) 12.5 2.5 0 45 (- 9.8) = Inr False"
    by (simp add: tankShot_def)
  ultimately show ?thesis by simp
qed

text \<open>
  C9. For every range and every input, \<open>getNumberInput\<close> raises no exception. When it returns,
  the value is a number of the input that lies within the range, and every line before it
  was not a number or was out of range; such a line is passed over and the next one is
  read. It returns exactly when the input holds a number within the range. For a range
  \<open>[lo, hi]\<close> of two numbers the value returned satisfies \<open>lo \<le> num \<le> hi\<close>, and both \<open>lo\<close>
  and \<open>hi\<close> themselves are returned when entered.
\<close>

theorem getNumberInput_contract:
  "(\<forall>e. getNumberInput validRange lines \<noteq> Some (Inl e)) \<and>
   (\<forall>num rest. getNumberInput validRange lines = Some (Inr (num, rest)) \<longrightarrow>
      bound_le (fst validRange) num \<and> le_bound num (snd validRange) \<and>
      (\<exists>skipped. lines = skipped @ Number num # rest \<and>
                 (\<forall>l\<in>set skipped. \<not> accepted validRange l))) \<and>
   (\<forall>l. \<not> accepted validRange l \<longrightarrow>
      getNumberInput validRange (l # lines) = getNumberInput validRange lines) \<and>
   ((\<exists>l\<in>set lines. accepted validRange l) \<longleftrightarrow>
      (\<exists>num rest. getNumberInput validRange lines = Some (Inr (num, rest)))) \<and>
   (\<forall>lo hi num rest. getNumberInput (Num lo, Num hi) lines = Some (Inr (num, rest)) \<longrightarrow>
      lo \<le> num \<and> num \<le> hi) \<and>
   (\<forall>lo hi. lo \<le> hi \<longrightarrow>
      getNumberInput (Num lo, Num hi) (Number lo # lines) = Some (Inr (lo, lines)) \<and>
      getNumberInput (Num lo, Num hi) (Number hi # lines) = Some (Inr (hi, lines)))"
proof (intro conjI allI impI)
  fix e show "getNumberInput validRange lines \<noteq> Some (Inl e)" by (rule getNumberInput_no_error)
next
  fix num rest
  assume r: "getNumberInput validRange lines = Some (Inr (num, rest))"
  from getNumberInput_result [OF r]
  show "bound_le (fst validRange) num" and "le_bound num (snd validRange)"
    and "\<exists>skipped. lines = skipped @ Number num # rest \<and> (\<forall>l\<in>set skipped. \<not> accepted validRange l)"
    by (simp_all add: accepted_def)
next
  fix l assume "\<not> accepted validRange l"
  then show "getNumberInput validRange (l # lines) = getNumberInput validRange lines"
    by (rule getNumberInput_skip)
next
  show "(\<exists>l\<in>set lines. accepted validRange l) \<longleftrightarrow>
      (\<exists>num rest. getNumberInput validRange lines = Some (Inr (num, rest)))"
  proof
    assume "\<exists>l\<in>set lines. accepted validRange l"
    then have "getNumberInput validRange lines \<noteq> None" by (simp add: getNumberInput_None_iff)
    then obtain r where r: "getNumberInput validRange lines = Some r" by blast
    with getNumberInput_no_error [of validRange lines] obtain num rest where "r = Inr (num, rest)"
      by (cases r) auto
    with r show "\<exists>num rest. getNumberInput validRange lines = Some (Inr (num, rest))" by blast
  next
    assume "\<exists>num rest. getNumberInput validRange lines = Some (Inr (num, rest))"
    then have "getNumberInput validRange lines \<noteq> None" by auto
    then show "\<exists>l\<in>set lines. accepted validRange l" by (simp add: getNumberInput_None_iff)
  qed
next
  fix lo hi num rest
  assume "getNumberInput (Num lo, Num hi) lines = Some (Inr (num, rest))"
  from getNumberInput_result [OF this] show "lo \<le> num" and "num \<le> hi"
    by (simp_all add: accepted_def)
next
  fix lo hi :: real
  assume "lo \<le> hi"
  then show "getNumberInput (Num lo, Num hi) (Number lo # lines) = Some (Inr (lo, lines))"
    and "getNumberInput (Num lo, Num hi) (Number hi # lines) = Some (Inr (hi, lines))"
    by (simp_all add: getNumberInput.simps)
qed

theorem getNumberInput_contract_witness:
  "getNumberInput (Num 0, Num 90) [NotANumber, Number 120, Number (- 1), Number 90, Number 7]
     = Some (Inr (90, [Number 7])) \<and>
   \<not> accepted (Num 0, Num 90) NotANumber \<and> \<not> accepted (Num 0, Num 90) (Number 120) \<and>
   \<not> accepted (Num 0, Num 90) (Number (- 1)) \<and> accepted (Num 0, Num 90) (Number 90) \<and>
   getNumberInput (Num 0, Num 90) [NotANumber, Number 120] = None"
  using getNumberInput_contract [of "(Num 0, Num 90)" "[NotANumber, Number 120, Number (- 1), Number 90, Number 7]"]
  by (simp add: accepted_def getNumberInput.simps)

text \<open>
  C8. The game starts with player 1, and the players of successive turns are 1, 2, 1, 2, ...
  A winner is always the player of the last turn. \<open>oneTurn\<close> returns exactly when both
  prompts return and the shot returns, and then its value is the player number on a hit and
  0 on a miss; on the lines of a turn it does return, for every \<open>g\<close> other than 0. After \<open>N\<close>
  turns that miss, each followed by a line for the pause, the loop goes on to turn \<open>N\<close>, taken
  by player 1 when \<open>N\<close> is even and by player 2 otherwise, whatever the input holds then;
  and when the shot of that turn hits, the game ends there, with the players 1, 2, 1, 2, ...
  of the \<open>N + 1\<close> turns and the player of the last one as the winner.
\<close>

theorem playGame_turns:
  "(case playGame t1 t2 ob g lines of
      (turns, result) \<Rightarrow>
        turns \<noteq> [] \<and> hd turns = 1 \<and>
        (\<forall>k<length turns. turns ! k = (if even k then 1 else 2)) \<and>
        (\<forall>w. result = Some (Inr w) \<longrightarrow> w = last turns) \<and>
        (\<forall>N p lines'. after_misses t1 t2 ob g N 1 lines = Some (p, lines') \<longrightarrow>
           p = (if even N then 1 else 2) \<and> N < length turns \<and> turns ! N = p \<and>
           (\<forall>w rest. oneTurn t1 t2 ob p g lines' = Some (Inr (w, rest)) \<and> w \<noteq> 0 \<longrightarrow>
              w = p \<and> length turns = Suc N \<and> result = Some (Inr p)))) \<and>
   (\<forall>p ls w rest. oneTurn t1 t2 ob p g ls = Some (Inr (w, rest)) \<longleftrightarrow>
      (\<exists>v theta ls1 hit.
         getNumberInput (MinusInf, PlusInf) ls = Some (Inr (v, ls1)) \<and>
         getNumberInput (MinusInf, PlusInf) ls1 = Some (Inr (theta, rest)) \<and>
         tankShot (if p = 1 then t2 else t1) ob
           (fst (centre (if p = 1 then t1 else t2))) (snd (centre (if p = 1 then t1 else t2)))
           v theta g = Inr hit \<and>
         w = (if hit then p else 0))) \<and>
   (\<forall>p e rest hit. shot t1 t2 ob g p e = Inr hit \<longrightarrow>
      oneTurn t1 t2 ob p g (turn_lines e @ rest) = Some (Inr (if hit then p else 0, rest))) \<and>
   (g \<noteq> 0 \<longrightarrow> (\<forall>p e rest. \<exists>hit. shot t1 t2 ob g p e = Inr hit \<and>
      oneTurn t1 t2 ob p g (turn_lines e @ rest) = Some (Inr (if hit then p else 0, rest)))) \<and>
   (\<forall>ms rest.
      (\<forall>k<length ms. shot t1 t2 ob g (if even k then 1 else 2) (fst (ms ! k)) = Inr False) \<longrightarrow>
      take (Suc (length ms)) (fst (playGame t1 t2 ob g (miss_lines ms @ rest))) =
        map (\<lambda>k. if even k then 1 else 2) [0..<Suc (length ms)]) \<and>
   (\<forall>ms h rest.
      (\<forall>k<length ms. shot t1 t2 ob g (if even k then 1 else 2) (fst (ms ! k)) = Inr False) \<and>
      shot t1 t2 ob g (if even (length ms) then 1 else 2) h = Inr True \<longrightarrow>
      playGame t1 t2 ob g (miss_lines ms @ turn_lines h @ rest) =
        (map (\<lambda>k. if even k then 1 else 2) [0..<Suc (length ms)],
         Some (Inr (if even (length ms) then 1 else 2))))"
proof -
  let ?G = "playGame_loop t1 t2 ob g 1 lines"
  have first: "fst ?G \<noteq> [] \<and> hd (fst ?G) = 1" by (rule playGame_loop_first)
  have alt: "\<forall>k<length (fst ?G). fst ?G ! k = (if even k then 1 else 2)"
    using playGame_loop_alternates [of 1 _ t1 t2 ob g lines] by simp
  have win: "\<forall>w. snd ?G = Some (Inr w) \<longrightarrow> w = last (fst ?G)"
    using playGame_loop_winner [of t1 t2 ob g 1 lines] by blast
  have after: "p = (if even N then 1 else 2) \<and> N < length (fst ?G) \<and> fst ?G ! N = p \<and>
           (\<forall>w rest. oneTurn t1 t2 ob p g lines' = Some (Inr (w, rest)) \<and> w \<noteq> 0 \<longrightarrow>
              w = p \<and> length (fst ?G) = Suc N \<and> snd ?G = Some (Inr p))"
    if a: "after_misses t1 t2 ob g N 1 lines = Some (p, lines')" for N p lines'
  proof -
    from after_misses_player [OF _ a] have p: "p = (if even N then 1 else 2)" by simp
    from after_misses_loop [OF a] obtain pre where pre: "length pre = N"
      "fst ?G = pre @ fst (playGame_loop t1 t2 ob g p lines')"
      "snd ?G = snd (playGame_loop t1 t2 ob g p lines')"
      by blast
    from playGame_loop_first [of t1 t2 ob g p lines']
    have ne: "fst (playGame_loop t1 t2 ob g p lines') \<noteq> []"
      and h: "hd (fst (playGame_loop t1 t2 ob g p lines')) = p" by simp_all
    from pre ne have len: "N < length (fst ?G)" by simp
    from pre ne h have nth: "fst ?G ! N = p" by (simp add: nth_append hd_conv_nth)
    have hit: "w = p \<and> length (fst ?G) = Suc N \<and> snd ?G = Some (Inr p)"
      if t: "oneTurn t1 t2 ob p g lines' = Some (Inr (w, rest))" and w: "w \<noteq> 0" for w rest
    proof -
      from oneTurn_winner [OF t] w have "w = p" by simp
      moreover from playGame_loop_hit [OF t w] pre
      have "length (fst ?G) = Suc N" "snd ?G = Some (Inr p)" by simp_all
      ultimately show ?thesis by simp
    qed
    from p len nth hit show ?thesis by blast
  qed
  obtain turns result where G: "playGame_loop t1 t2 ob g 1 lines = (turns, result)"
    by (cases "playGame_loop t1 t2 ob g 1 lines")
  from first have c1: "turns \<noteq> []" and c2: "hd turns = 1" by (simp_all add: G)
  from alt have c3: "\<forall>k<length turns. turns ! k = (if even k then 1 else 2)" by (simp add: G)
  from win have c4: "\<forall>w. result = Some (Inr w) \<longrightarrow> w = last turns" by (simp add: G)
  have c5: "\<forall>N p lines'. after_misses t1 t2 ob g N 1 lines = Some (p, lines') \<longrightarrow>
           p = (if even N then 1 else 2) \<and> N < length turns \<and> turns ! N = p \<and>
           (\<forall>w rest. oneTurn t1 t2 ob p g lines' = Some (Inr (w, rest)) \<and> w \<noteq> 0 \<longrightarrow>
              w = p \<and> length turns = Suc N \<and> result = Some (Inr p))"
  proof (intro allI impI)
    fix N p lines'
    assume "after_misses t1 t2 ob g N 1 lines = Some (p, lines')"
    from after [OF this] show "p = (if even N then 1 else 2) \<and> N < length turns \<and> turns ! N = p \<and>
           (\<forall>w rest. oneTurn t1 t2 ob p g lines' = Some (Inr (w, rest)) \<and> w \<noteq> 0 \<longrightarrow>
              w = p \<and> length turns = Suc N \<and> result = Some (Inr p))"
      unfolding G fst_conv snd_conv .
  qed
  have turn: "\<forall>p ls w rest. oneTurn t1 t2 ob p g ls = Some (Inr (w, rest)) \<longleftrightarrow>
      (\<exists>v theta ls1 hit.
         getNumberInput (MinusInf, PlusInf) ls = Some (Inr (v, ls1)) \<and>
         getNumberInput (MinusInf, PlusInf) ls1 = Some (Inr (theta, rest)) \<and>
         tankShot (if p = 1 then t2 else t1) ob
           (fst (centre (if p = 1 then t1 else t2))) (snd (centre (if p = 1 then t1 else t2)))
           v theta g = Inr hit \<and>
         w = (if hit then p else 0))"
    using oneTurn_iff by blast
  have ret: "\<forall>p e rest hit. shot t1 t2 ob g p e = Inr hit \<longrightarrow>
      oneTurn t1 t2 ob p g (turn_lines e @ rest) = Some (Inr (if hit then p else 0, rest))"
    using oneTurn_returns by blast
  have tot: "g \<noteq> 0 \<longrightarrow> (\<forall>p e rest. \<exists>hit. shot t1 t2 ob g p e = Inr hit \<and>
      oneTurn t1 t2 ob p g (turn_lines e @ rest) = Some (Inr (if hit then p else 0, rest)))"
  proof (intro impI allI)
    fix p e rest
    assume "g \<noteq> 0"
    from shot_returns [OF this, of t1 t2 ob p e] obtain hit where h: "shot t1 t2 ob g p e = Inr hit"
      by blast
    from h oneTurn_returns [OF h, of rest]
    show "\<exists>hit. shot t1 t2 ob g p e = Inr hit \<and>
      oneTurn t1 t2 ob p g (turn_lines e @ rest) = Some (Inr (if hit then p else 0, rest))"
      by blast
  qed
  have goes: "\<forall>ms rest.
      (\<forall>k<length ms. shot t1 t2 ob g (if even k then 1 else 2) (fst (ms ! k)) = Inr False) \<longrightarrow>
      take (Suc (length ms)) (fst (playGame t1 t2 ob g (miss_lines ms @ rest))) =
        map (\<lambda>k. if even k then 1 else 2) [0..<Suc (length ms)]"
  proof (intro allI impI)
    fix ms :: "(entry \<times> line) list" and rest
    assume "\<forall>k<length ms. shot t1 t2 ob g (if even k then 1 else 2) (fst (ms ! k)) = Inr False"
    then show "take (Suc (length ms)) (fst (playGame t1 t2 ob g (miss_lines ms @ rest))) =
        map (\<lambda>k. if even k then 1 else 2) [0..<Suc (length ms)]"
      by (rule playGame_goes_on)
  qed
  have ends: "\<forall>ms h rest.
      (\<forall>k<length ms. shot t1 t2 ob g (if even k then 1 else 2) (fst (ms ! k)) = Inr False) \<and>
      shot t1 t2 ob g (if even (length ms) then 1 else 2) h = Inr True \<longrightarrow>
      playGame t1 t2 ob g (miss_lines ms @ turn_lines h @ rest) =
        (map (\<lambda>k. if even k then 1 else 2) [0..<Suc (length ms)],
         Some (Inr (if even (length ms) then 1 else 2)))"
  proof (intro allI impI)
    fix ms :: "(entry \<times> line) list" and h rest
    assume a: "(\<forall>k<length ms. shot t1 t2 ob g (if even k then 1 else 2) (fst (ms ! k)) = Inr False) \<and>
      shot t1 t2 ob g (if even (length ms) then 1 else 2) h = Inr True"
    then show "playGame t1 t2 ob g (miss_lines ms @ turn_lines h @ rest) =
        (map (\<lambda>k. if even k then 1 else 2) [0..<Suc (length ms)],
         Some (Inr (if even (length ms) then 1 else 2)))"
      by (intro playGame_script) simp_all
  qed
  show ?thesis unfolding playGame_def [of t1 t2 ob g lines] G prod.case
    by (intro conjI c1 c2 c3 c4 c5 turn ret tot goes ends)
qed

lemma first_shot_misses:
  "shot (0, 10, 0, 10) (1, 3, 1, 3) (4, 6, 4, 6) 9.8 1 (Entry 0 30 1 45) = Inr False"
  unfolding shot_def by (simp add: centre_def) (rule tankShot_origin_blocked, simp_all add: inside_def)

lemma second_shot_hits:
  "shot (0, 10, 0, 10) (1, 3, 1, 3) (4, 6, 4, 6) 9.8 2 (Entry 0 20 0 60) = Inr True"
  unfolding shot_def by (simp add: centre_def) (rule tankShot_origin_hits, simp_all add: inside_def)

theorem playGame_turns_witness:
  "shot (0, 10, 0, 10) (1, 3, 1, 3) (4, 6, 4, 6) 9.8 1 (Entry 0 30 1 45) = Inr False \<and>
   shot (0, 10, 0, 10) (1, 3, 1, 3) (4, 6, 4, 6) 9.8 2 (Entry 0 20 0 60) = Inr True \<and>
   miss_lines [(Entry 0 30 1 45, NotANumber)] @ turn_lines (Entry 0 20 0 60) @ []
     = [Number 30, NotANumber, Number 45, NotANumber, Number 20, Number 60] \<and>
   playGame (0, 10, 0, 10) (1, 3, 1, 3) (4, 6, 4, 6) 9.8
     [Number 30, NotANumber, Number 45, NotANumber, Number 20, Number 60]
     = ([1, 2], Some (Inr 2)) \<and>
   oneTurn (0, 10, 0, 10) (1, 3, 1, 3) (4, 6, 4, 6) 1 9.8
     [Number 30, NotANumber, Number 45, NotANumber, Number 20, Number 60]
     = Some (Inr (0, [NotANumber, Number 20, Number 60])) \<and>
   oneTurn (0, 10, 0, 10) (1, 3, 1, 3) (4, 6, 4, 6) 2 9.8 [Number 20, Number 60]
     = Some (Inr (2, []))"
proof -
  let ?t1 = "(0, 10, 0, 10) :: box" and ?t2 = "(1, 3, 1, 3) :: box" and ?ob = "(4, 6, 4, 6) :: box"
  let ?lines = "[Number 30, NotANumber, Number 45, NotANumber, Number 20, Number 60]"
  let ?ms = "[(Entry 0 30 1 45, NotANumber)]"
  let ?h = "Entry 0 20 0 60"
  note T = playGame_turns [of ?t1 ?t2 ?ob "9.8" ?lines]
  note ret = T [THEN conjunct2, THEN conjunct2, THEN conjunct1, rule_format]
  note ends = T [THEN conjunct2, THEN conjunct2, THEN conjunct2, THEN conjunct2, THEN conjunct2,
      rule_format, of ?ms ?h "[]"]
  have l: "miss_lines ?ms @ turn_lines ?h @ [] = ?lines"
    by (simp add: miss_lines_def turn_lines_def)
  have "playGame ?t1 ?t2 ?ob 9.8 (miss_lines ?ms @ turn_lines ?h @ []) = ([1, 2], Some (Inr 2))"
    using ends first_shot_misses second_shot_hits by simp
  then have g: "playGame ?t1 ?t2 ?ob 9.8 ?lines = ([1, 2], Some (Inr 2))"
    unfolding l .
  have a: "oneTurn ?t1 ?t2 ?ob 1 9.8 ?lines = Some (Inr (0, [NotANumber, Number 20, Number 60]))"
    using ret [OF first_shot_misses, of "[NotANumber, Number 20, Number 60]"]
    by (simp add: turn_lines_def)
  have b: "oneTurn ?t1 ?t2 ?ob 2 9.8 [Number 20, Number 60] = Some (Inr (2, []))"
    using ret [OF second_shot_hits, of "[]"] by (simp add: turn_lines_def)
  from first_shot_misses second_shot_hits l g a b show ?thesis by blast
qed

end
